theory Spec2Isabelle
  imports Main "HOL-Library.Sublist"
begin

section \<open>The agent manager of the OBS control panel\<close>

text \<open>
  This theory embeds \<^verbatim>\<open>src/obs-control-panel/src/agent.ts\<close> (class
  \<^verbatim>\<open>AgentManager\<close>) and the interfaces \<^verbatim>\<open>Task\<close>, \<^verbatim>\<open>Order\<close>,
  \<^verbatim>\<open>Agent\<close> of \<^verbatim>\<open>types.ts\<close>.

  Modelling decisions:
  \<^item> \<^verbatim>\<open>Order\<close> objects are shared by reference between the caller, the agent's
    \<^verbatim>\<open>currentOrder\<close> and the agent's \<^verbatim>\<open>orderHistory\<close>; they live in a store
    indexed by addresses, and the agent holds addresses. The tasks of an order are the
    elements of its own \<^verbatim>\<open>tasks\<close> array, as \<^verbatim>\<open>createOrder\<close> builds them.
  \<^item> A task's \<^verbatim>\<open>action\<close> is an opaque callable; the model records what awaiting it
    does: it resolves, or it rejects with a JavaScript value.
  \<^item> An event listener is an opaque callable as well; the model records what calling it
    on a payload does: it returns, or it throws a JavaScript value. The payload is the
    snapshot of the objects handed to the listener. Listeners and actions observe; they
    do not write to the agents, orders or tasks.
  \<^item> A \<^verbatim>\<open>throw\<close> is a value of the result: every function that can throw returns
    a completion together with the state it leaves behind.
  \<^item> \<^verbatim>\<open>new Date()\<close> reads a clock that is part of the state and counts its
    reads: what carries over to the code is whether a timestamp is set, not how two
    timestamps compare (two reads of the real clock may give the same millisecond).
    \<^verbatim>\<open>crypto.randomUUID()\<close> is a parameter.
  \<^item> One call of \<^verbatim>\<open>executeOrder\<close> is run from its first statement to its last:
    the interleaving of several pending calls at an \<^verbatim>\<open>await\<close> is outside the model.
  \<^item> Three logs are added to the state to observe a run: the events passed to
    \<^verbatim>\<open>emit\<close>, the listeners that were called, the actions that were called.
\<close>

subsection \<open>Data model (types.ts)\<close>

datatype task_status = Pending | Running | Completed | Failed

datatype order_status = OrderPending | InProgress | OrderCompleted | OrderFailed

datatype agent_status = Idle | Busy | AgentError

text \<open>A value that a callable throws: an \<^verbatim>\<open>Error\<close> object with its message, or any
  other value, given by what \<^verbatim>\<open>String(value)\<close> returns.\<close>

datatype js_value = ErrorObject string | NonError string

datatype action_outcome = Resolves | Rejects js_value

record task =
  task_id :: string
  task_name :: string
  task_description :: string
  task_status :: task_status
  action :: action_outcome
  result :: "string option"
  error :: "string option"
  startTime :: "nat option"
  endTime :: "nat option"

record order =
  order_id :: string
  order_name :: string
  order_description :: string
  tasks :: "task list"
  createdAt :: nat
  order_status :: order_status

type_synonym order_ref = nat

record agent =
  agent_id :: string
  agent_name :: string
  agent_status :: agent_status
  currentOrder :: "order_ref option"
  orderHistory :: "order_ref list"

subsection \<open>Exceptions\<close>

text \<open>The three \<^verbatim>\<open>throw new Error(...)\<close> statements of the class, and the values
  thrown by a listener.\<close>

datatype exn =
    AgentNotFound string
  | AgentBusy string
  | TaskFailed string string
  | Callback js_value

text \<open>\<^verbatim>\<open>error instanceof Error ? error.message : String(error)\<close>\<close>

fun describe :: "js_value \<Rightarrow> string" where
  "describe (ErrorObject msg) = msg"
| "describe (NonError s) = s"

fun message :: "exn \<Rightarrow> string" where
  "message (AgentNotFound agentId) = ''Agent '' @ agentId @ '' not found''"
| "message (AgentBusy name) = ''Agent '' @ name @ '' is already busy''"
| "message (TaskFailed name err) = ''Task '' @ name @ '' failed: '' @ err"
| "message (Callback v) = describe v"

datatype 'a completion = Return 'a | Throw exn

subsection \<open>State\<close>

datatype payload =
    AgentData agent
  | OrderData agent order
  | TaskData agent task
  | FailureData agent order exn

type_synonym handler = "payload \<Rightarrow> js_value option"

record world =
  agents :: "string \<rightharpoonup> agent"
  eventListeners :: "string \<rightharpoonup> handler list"
  orders :: "order_ref \<Rightarrow> order"
  clock :: nat
  published :: "(string \<times> payload) list"
  invoked :: "(string \<times> nat) list"
  performed :: "(order_ref \<times> nat) list"

definition newDate :: "world \<Rightarrow> nat \<times> world" where
  "newDate w = (clock w, w\<lparr>clock := Suc (clock w)\<rparr>)"

definition setAgent :: "string \<Rightarrow> agent \<Rightarrow> world \<Rightarrow> world" where
  "setAgent agentId a w = w\<lparr>agents := (agents w)(agentId \<mapsto> a)\<rparr>"

definition updOrder :: "order_ref \<Rightarrow> (order \<Rightarrow> order) \<Rightarrow> world \<Rightarrow> world" where
  "updOrder r f w = w\<lparr>orders := (orders w)(r := f (orders w r))\<rparr>"

definition theTask :: "world \<Rightarrow> order_ref \<Rightarrow> nat \<Rightarrow> task" where
  "theTask w r i = tasks (orders w r) ! i"

definition updTask :: "order_ref \<Rightarrow> nat \<Rightarrow> (task \<Rightarrow> task) \<Rightarrow> world \<Rightarrow> world" where
  "updTask r i f w =
     updOrder r (\<lambda>ord. ord\<lparr>tasks := (tasks ord)[i := f (tasks ord ! i)]\<rparr>) w"

subsection \<open>The event system (agent.ts, lines 129 to 141)\<close>

definition on :: "string \<Rightarrow> handler \<Rightarrow> world \<Rightarrow> world" where
  "on event callback w =
     (let listeners = (case eventListeners w event of None \<Rightarrow> [] | Some ls \<Rightarrow> ls)
      in w\<lparr>eventListeners := (eventListeners w)(event \<mapsto> listeners @ [callback])\<rparr>)"

text \<open>\<^verbatim>\<open>listeners.forEach((callback) => callback(data))\<close>: the listeners are called
  in order; a listener that throws ends the iteration, and the exception leaves
  \<^verbatim>\<open>forEach\<close>. The number is the position of the listener in the array.\<close>

fun forEach :: "string \<Rightarrow> handler list \<Rightarrow> nat \<Rightarrow> payload \<Rightarrow> world \<Rightarrow> unit completion \<times> world" where
  "forEach event [] i data w = (Return (), w)"
| "forEach event (callback # rest) i data w =
     (let w1 = w\<lparr>invoked := invoked w @ [(event, i)]\<rparr>
      in case callback data of
           Some v \<Rightarrow> (Throw (Callback v), w1)
         | None \<Rightarrow> forEach event rest (Suc i) data w1)"

definition emit :: "string \<Rightarrow> payload \<Rightarrow> world \<Rightarrow> unit completion \<times> world" where
  "emit event data w =
     (let w1 = w\<lparr>published := published w @ [(event, data)]\<rparr>
      in case eventListeners w1 event of
           None \<Rightarrow> (Return (), w1)
         | Some listeners \<Rightarrow> forEach event listeners 0 data w1)"

subsection \<open>Agents and orders (agent.ts, lines 13 to 62)\<close>

definition createAgent :: "string \<Rightarrow> string \<Rightarrow> world \<Rightarrow> agent completion \<times> world" where
  "createAgent name uuid w =
     (let a = \<lparr>agent_id = uuid, agent_name = name, agent_status = Idle,
                currentOrder = None, orderHistory = []\<rparr>;
          w1 = setAgent uuid a w
      in case emit ''agentCreated'' (AgentData a) w1 of
           (Throw e, w2) \<Rightarrow> (Throw e, w2)
         | (Return _, w2) \<Rightarrow> (Return a, w2))"

definition getAgent :: "string \<Rightarrow> world \<Rightarrow> agent option" where
  "getAgent agentId w = agents w agentId"

text \<open>\<^verbatim>\<open>Omit<Task, "id" | "status">\<close>\<close>

record task_spec =
  spec_name :: string
  spec_description :: string
  spec_action :: action_outcome
  spec_result :: "string option"
  spec_error :: "string option"
  spec_startTime :: "nat option"
  spec_endTime :: "nat option"

definition newTask :: "task_spec \<Rightarrow> string \<Rightarrow> task" where
  "newTask s uuid =
     \<lparr>task_id = uuid, task_name = spec_name s, task_description = spec_description s,
      task_status = Pending, action = spec_action s, result = spec_result s,
      error = spec_error s, startTime = spec_startTime s, endTime = spec_endTime s\<rparr>"

text \<open>The identifiers are drawn in the order of the source: the order's, then one for
  each task.\<close>

definition createOrder :: "string \<Rightarrow> string \<Rightarrow> task_spec list \<Rightarrow> (nat \<Rightarrow> string) \<Rightarrow> nat \<Rightarrow> order" where
  "createOrder name description specs uuid now =
     \<lparr>order_id = uuid 0, order_name = name, order_description = description,
      tasks = map (\<lambda>(s, i). newTask s (uuid (Suc i))) (zip specs [0..<length specs]),
      createdAt = now, order_status = OrderPending\<rparr>"

subsection \<open>Running a task (agent.ts, lines 108 to 124)\<close>

definition settle :: "order_ref \<Rightarrow> nat \<Rightarrow> world \<Rightarrow> world" where
  "settle r i w =
     (case action (theTask w r i) of
        Resolves \<Rightarrow>
          updTask r i (\<lambda>t. t\<lparr>result := Some ''Success''\<rparr>)
            (updTask r i (\<lambda>t. t\<lparr>task_status := Completed\<rparr>) w)
      | Rejects v \<Rightarrow>
          updTask r i (\<lambda>t. t\<lparr>error := Some (describe v)\<rparr>)
            (updTask r i (\<lambda>t. t\<lparr>task_status := Failed\<rparr>) w))"

definition executeTask :: "agent \<Rightarrow> order_ref \<Rightarrow> nat \<Rightarrow> world \<Rightarrow> unit completion \<times> world" where
  "executeTask a r i w =
     (let w1 = updTask r i (\<lambda>t. t\<lparr>task_status := Running\<rparr>) w;
          (d, w2) = newDate w1;
          w3 = updTask r i (\<lambda>t. t\<lparr>startTime := Some d\<rparr>) w2
      in case emit ''taskStarted'' (TaskData a (theTask w3 r i)) w3 of
           (Throw e, w4) \<Rightarrow> (Throw e, w4)
         | (Return _, w4) \<Rightarrow>
             (let w5 = settle r i (w4\<lparr>performed := performed w4 @ [(r, i)]\<rparr>);
                  (d', w6) = newDate w5;
                  w7 = updTask r i (\<lambda>t. t\<lparr>endTime := Some d'\<rparr>) w6
              in emit ''taskCompleted'' (TaskData a (theTask w7 r i)) w7))"

subsection \<open>Running an order (agent.ts, lines 67 to 103)\<close>

text \<open>\<^verbatim>\<open>${task.error}\<close> in a template string\<close>

definition shown :: "string option \<Rightarrow> string" where
  "shown s = (case s of None \<Rightarrow> ''undefined'' | Some x \<Rightarrow> x)"

text \<open>The \<^verbatim>\<open>for\<close> loop of lines 83 to 88, over the positions of the array.\<close>

fun runTasks :: "agent \<Rightarrow> order_ref \<Rightarrow> nat list \<Rightarrow> world \<Rightarrow> unit completion \<times> world" where
  "runTasks a r [] w = (Return (), w)"
| "runTasks a r (i # rest) w =
     (case executeTask a r i w of
        (Throw e, w1) \<Rightarrow> (Throw e, w1)
      | (Return _, w1) \<Rightarrow>
          if task_status (theTask w1 r i) = Failed
          then (Throw (TaskFailed (task_name (theTask w1 r i)) (shown (error (theTask w1 r i)))), w1)
          else runTasks a r rest w1)"

text \<open>The \<^verbatim>\<open>try\<close> block, lines 82 to 90.\<close>

definition tryBlock :: "agent \<Rightarrow> order_ref \<Rightarrow> world \<Rightarrow> unit completion \<times> world" where
  "tryBlock a r w =
     (case runTasks a r [0..<length (tasks (orders w r))] w of
        (Throw e, w1) \<Rightarrow> (Throw e, w1)
      | (Return _, w1) \<Rightarrow>
          (let w2 = updOrder r (\<lambda>ord. ord\<lparr>order_status := OrderCompleted\<rparr>) w1
           in emit ''orderCompleted'' (OrderData a (orders w2 r)) w2))"

text \<open>The \<^verbatim>\<open>catch\<close> block, lines 91 to 95: it ends by throwing, the caught value or
  what a listener of \<^verbatim>\<open>orderFailed\<close> threw.\<close>

definition catchBlock :: "string \<Rightarrow> agent \<Rightarrow> order_ref \<Rightarrow> exn \<Rightarrow> world \<Rightarrow> unit completion \<times> world" where
  "catchBlock agentId a r e w =
     (let w1 = updOrder r (\<lambda>ord. ord\<lparr>order_status := OrderFailed\<rparr>) w;
          a1 = a\<lparr>agent_status := AgentError\<rparr>;
          w2 = setAgent agentId a1 w1
      in case emit ''orderFailed'' (FailureData a1 (orders w2 r) e) w2 of
           (Throw e', w3) \<Rightarrow> (Throw e', w3)
         | (Return _, w3) \<Rightarrow> (Throw e, w3))"

text \<open>The \<^verbatim>\<open>finally\<close> block, lines 96 to 102, on the agent object that line 68
  looked up.\<close>

definition finallyBlock :: "string \<Rightarrow> order_ref \<Rightarrow> world \<Rightarrow> world" where
  "finallyBlock agentId r w =
     (case agents w agentId of
        None \<Rightarrow> w
      | Some a \<Rightarrow>
          (let a1 = a\<lparr>orderHistory := orderHistory a @ [r]\<rparr>;
               a2 = a1\<lparr>currentOrder := None\<rparr>;
               a3 = (if agent_status a2 \<noteq> AgentError then a2\<lparr>agent_status := Idle\<rparr> else a2)
           in setAgent agentId a3 w))"

definition executeOrder :: "string \<Rightarrow> order_ref \<Rightarrow> world \<Rightarrow> unit completion \<times> world" where
  "executeOrder agentId r w =
     (case agents w agentId of
        None \<Rightarrow> (Throw (AgentNotFound agentId), w)
      | Some a \<Rightarrow>
          if agent_status a = Busy then (Throw (AgentBusy (agent_name a)), w)
          else
            (let a1 = a\<lparr>currentOrder := Some r\<rparr>;
                 a2 = a1\<lparr>agent_status := Busy\<rparr>;
                 w1 = setAgent agentId a2 w;
                 w2 = updOrder r (\<lambda>ord. ord\<lparr>order_status := InProgress\<rparr>) w1
             in case emit ''orderStarted'' (OrderData a2 (orders w2 r)) w2 of
                  (Throw e, w3) \<Rightarrow> (Throw e, w3)
                | (Return _, w3) \<Rightarrow>
                    (case tryBlock a2 r w3 of
                       (Return _, w4) \<Rightarrow> (Return (), finallyBlock agentId r w4)
                     | (Throw e, w4) \<Rightarrow>
                         (case catchBlock agentId a2 r e w4 of
                            (c, w5) \<Rightarrow> (c, finallyBlock agentId r w5)))))"

subsection \<open>Statistics (agent.ts, lines 146 to 169)\<close>

record stats =
  totalOrders :: nat
  completedOrders :: nat
  failedOrders :: nat
  totalTasks :: nat

definition getStats :: "string \<Rightarrow> world \<Rightarrow> stats completion \<times> world" where
  "getStats agentId w =
     (case agents w agentId of
        None \<Rightarrow> (Throw (AgentNotFound agentId), w)
      | Some a \<Rightarrow>
          (Return
             \<lparr>totalOrders = length (orderHistory a),
              completedOrders =
                length (filter (\<lambda>r. order_status (orders w r) = OrderCompleted) (orderHistory a)),
              failedOrders =
                length (filter (\<lambda>r. order_status (orders w r) = OrderFailed) (orderHistory a)),
              totalTasks =
                foldl (\<lambda>sum r. sum + length (tasks (orders w r))) 0 (orderHistory a)\<rparr>,
           w))"

section \<open>Auxiliary definitions\<close>

subsection \<open>Closed forms\<close>

text \<open>The listeners of an event, none when the event has no entry in the map.\<close>
definition listenersOf :: "world \<Rightarrow> string \<Rightarrow> handler list" where
  "listenersOf w event = (case eventListeners w event of None \<Rightarrow> [] | Some ls \<Rightarrow> ls)"

text \<open>What calling the listeners in order on a payload ends with, and how many of
  them are called.\<close>
fun outcome :: "handler list \<Rightarrow> payload \<Rightarrow> unit completion" where
  "outcome [] p = Return ()"
| "outcome (h # hs) p = (case h p of Some v \<Rightarrow> Throw (Callback v) | None \<Rightarrow> outcome hs p)"

fun called :: "handler list \<Rightarrow> payload \<Rightarrow> nat" where
  "called [] p = 0"
| "called (h # hs) p = (case h p of Some v \<Rightarrow> 1 | None \<Rightarrow> Suc (called hs p))"

text \<open>The task at position \<open>i\<close> of an order replaced; the task when its action has
  been started at time \<open>d\<close>, and when it has ended.\<close>
definition putTask :: "order_ref \<Rightarrow> nat \<Rightarrow> task \<Rightarrow> world \<Rightarrow> world" where
  "putTask r i t w = updOrder r (\<lambda>ord. ord\<lparr>tasks := (tasks ord)[i := t]\<rparr>) w"

definition startedTask :: "nat \<Rightarrow> task \<Rightarrow> task" where
  "startedTask d t = t\<lparr>task_status := Running, startTime := Some d\<rparr>"

definition finishedTask :: "nat \<Rightarrow> task \<Rightarrow> task" where
  "finishedTask d t =
     (case action t of
        Resolves \<Rightarrow> t\<lparr>startTime := Some d, task_status := Completed,
                       result := Some ''Success'', endTime := Some (Suc d)\<rparr>
      | Rejects v \<Rightarrow> t\<lparr>startTime := Some d, task_status := Failed,
                        error := Some (describe v), endTime := Some (Suc d)\<rparr>)"

text \<open>The payload of \<open>orderStarted\<close>.\<close>
definition startPayload :: "agent \<Rightarrow> order_ref \<Rightarrow> world \<Rightarrow> payload" where
  "startPayload a r w =
     OrderData (a\<lparr>currentOrder := Some r, agent_status := Busy\<rparr>)
       ((orders w r)\<lparr>order_status := InProgress\<rparr>)"

text \<open>The agent after lines 77 and 78, and the state in which the \<^verbatim>\<open>try\<close> block
  starts.\<close>
definition busy :: "agent \<Rightarrow> order_ref \<Rightarrow> agent" where
  "busy a r = a\<lparr>currentOrder := Some r, agent_status := Busy\<rparr>"

definition startWorld :: "string \<Rightarrow> agent \<Rightarrow> order_ref \<Rightarrow> world \<Rightarrow> world" where
  "startWorld agentId a r w =
     snd (emit ''orderStarted'' (startPayload a r w)
       (updOrder r (\<lambda>ord. ord\<lparr>order_status := InProgress\<rparr>) (setAgent agentId (busy a r) w)))"

subsection \<open>Predicates of the claims\<close>

text \<open>No listener of one of the events \<open>evs\<close> throws, whatever it is called on.\<close>
definition quietOn :: "string set \<Rightarrow> world \<Rightarrow> bool" where
  "quietOn evs w \<longleftrightarrow> (\<forall>ev\<in>evs. \<forall>h\<in>set (listenersOf w ev). \<forall>p. h p = None)"

text \<open>What running tasks of the order \<open>r\<close> leaves as it was: the listeners, the other
  orders, and of \<open>r\<close> its identifier, the number of its tasks and their identifiers,
  names and actions.\<close>
definition frame :: "order_ref \<Rightarrow> world \<Rightarrow> world \<Rightarrow> bool" where
  "frame r w w' \<longleftrightarrow>
     eventListeners w' = eventListeners w \<and>
     (\<forall>r'. r' \<noteq> r \<longrightarrow> orders w' r' = orders w r') \<and>
     order_id (orders w' r) = order_id (orders w r) \<and>
     length (tasks (orders w' r)) = length (tasks (orders w r)) \<and>
     (\<forall>j. action (theTask w' r j) = action (theTask w r j) \<and>
          task_name (theTask w' r j) = task_name (theTask w r j) \<and>
          task_id (theTask w' r j) = task_id (theTask w r j))"

text \<open>A published event is told by its name and the identifier of the agent, order or
  task it is about.\<close>
fun subject :: "payload \<Rightarrow> string" where
  "subject (AgentData a) = agent_id a"
| "subject (OrderData a ord) = order_id ord"
| "subject (TaskData a t) = task_id t"
| "subject (FailureData a ord e) = order_id ord"

definition label :: "string \<times> payload \<Rightarrow> string \<times> string" where
  "label e = (fst e, subject (snd e))"

text \<open>The two events of a task that is run.\<close>
definition taskEvents :: "world \<Rightarrow> order_ref \<Rightarrow> nat \<Rightarrow> (string \<times> string) list" where
  "taskEvents w r i =
     [(''taskStarted'', task_id (theTask w r i)), (''taskCompleted'', task_id (theTask w r i))]"

text \<open>The invariant of claim C5.\<close>
definition busyIffCurrent :: "world \<Rightarrow> bool" where
  "busyIffCurrent w \<longleftrightarrow>
     (\<forall>agentId a. agents w agentId = Some a \<longrightarrow>
        (agent_status a = Busy \<longleftrightarrow> currentOrder a \<noteq> None))"

text \<open>The states between calls: a new manager has no agent; then agents are created,
  listeners registered, orders built or changed by their owners, and orders run.\<close>
inductive reachable :: "world \<Rightarrow> bool" where
  new: "agents w = Map.empty \<Longrightarrow> reachable w"
| create: "reachable w \<Longrightarrow> reachable (snd (createAgent name uuid w))"
| listen: "reachable w \<Longrightarrow> reachable (on event callback w)"
| store: "reachable w \<Longrightarrow> reachable (w\<lparr>orders := os\<rparr>)"
| execute: "reachable w \<Longrightarrow> reachable (snd (executeOrder agentId r w))"

text \<open>The invariant of claim C8 on the fields of a task.\<close>
definition consistent :: "task \<Rightarrow> bool" where
  "consistent t \<longleftrightarrow>
     (task_status t \<noteq> Pending \<longrightarrow> startTime t \<noteq> None) \<and>
     (endTime t \<noteq> None \<longleftrightarrow> task_status t = Completed \<or> task_status t = Failed) \<and>
     (result t \<noteq> None \<longrightarrow> task_status t = Completed) \<and>
     (error t \<noteq> None \<longrightarrow> task_status t = Failed) \<and>
     \<not> (result t \<noteq> None \<and> error t \<noteq> None)"

text \<open>A task that has not been run: as \<^verbatim>\<open>createOrder\<close> makes it from a name, a
  description and an action.\<close>
definition untouched :: "task \<Rightarrow> bool" where
  "untouched t \<longleftrightarrow>
     task_status t = Pending \<and> result t = None \<and> error t = None \<and> endTime t = None"

text \<open>The tasks that a payload shows to a listener.\<close>
fun payloadTasks :: "payload \<Rightarrow> task list" where
  "payloadTasks (AgentData a) = []"
| "payloadTasks (OrderData a ord) = tasks ord"
| "payloadTasks (TaskData a t) = [t]"
| "payloadTasks (FailureData a ord e) = tasks ord"

text \<open>The invariant of the proof of claim C8: the tasks of the order, and those of the
  payloads published since the log had length \<open>n\<close>, are consistent.\<close>
definition sound :: "nat \<Rightarrow> order_ref \<Rightarrow> world \<Rightarrow> bool" where
  "sound n r w \<longleftrightarrow>
     n \<le> length (published w) \<and>
     (\<forall>t\<in>set (tasks (orders w r)). consistent t) \<and>
     (\<forall>e\<in>set (drop n (published w)). \<forall>t\<in>set (payloadTasks (snd e)). consistent t)"

text \<open>A sequence of calls of \<^verbatim>\<open>executeOrder\<close>, by any agents, run one after the
  other; what each call did is kept.\<close>
fun runCalls :: "(string \<times> order_ref) list \<Rightarrow> world \<Rightarrow> unit completion list \<times> world" where
  "runCalls [] w = ([], w)"
| "runCalls (c # cs) w =
     (case executeOrder (fst c) (snd c) w of
        (d, w1) \<Rightarrow> (case runCalls cs w1 of (ds, w2) \<Rightarrow> (d # ds, w2)))"

text \<open>The orders that the calls give to an agent, and what these calls did.\<close>
definition ordersOf :: "string \<Rightarrow> (string \<times> order_ref) list \<Rightarrow> order_ref list" where
  "ordersOf agentId cs = map snd (filter (\<lambda>c. fst c = agentId) cs)"

definition resultsOf ::
  "string \<Rightarrow> (string \<times> order_ref) list \<Rightarrow> unit completion list \<Rightarrow> unit completion list" where
  "resultsOf agentId cs ds = map snd (filter (\<lambda>p. fst (fst p) = agentId) (zip cs ds))"

text \<open>The status in which a call that got to the \<^verbatim>\<open>try\<close> block leaves the order.\<close>
definition verdict :: "unit completion \<Rightarrow> order_status" where
  "verdict c = (if c = Return () then OrderCompleted else OrderFailed)"

subsection \<open>Example states\<close>

text \<open>An idle agent, tasks and orders as \<^verbatim>\<open>createOrder\<close> makes them, a state whose
  store holds one order at every address, and two listeners.\<close>
definition agentA :: agent where
  "agentA = \<lparr>agent_id = ''a1'', agent_name = ''A'', agent_status = Idle,
              currentOrder = None, orderHistory = []\<rparr>"

definition mkTask :: "string \<Rightarrow> action_outcome \<Rightarrow> task" where
  "mkTask n act = \<lparr>task_id = n, task_name = n, task_description = [], task_status = Pending,
      action = act, result = None, error = None, startTime = None, endTime = None\<rparr>"

definition mkOrder :: "string \<Rightarrow> task list \<Rightarrow> order" where
  "mkOrder n ts = \<lparr>order_id = n, order_name = n, order_description = [], tasks = ts,
      createdAt = 0, order_status = OrderPending\<rparr>"

definition world0 :: "order \<Rightarrow> world" where
  "world0 ord = \<lparr>agents = [''a1'' \<mapsto> agentA], eventListeners = Map.empty,
      orders = (\<lambda>_. ord), clock = 0, published = [], invoked = [], performed = []\<rparr>"

definition thrower :: handler where
  "thrower = (\<lambda>_. Some (ErrorObject ''listener failed''))"

definition silent :: handler where
  "silent = (\<lambda>_. None)"

definition worldC1 :: world where
  "worldC1 = on ''taskStarted'' silent (on ''taskStarted'' thrower
      (world0 (mkOrder ''o1'' [mkTask ''t1'' Resolves])))"

definition boom :: js_value where
  "boom = ErrorObject ''boom''"

text \<open>A state with a listener that returns on each of the five events of an order.\<close>
definition quietWorld :: "order \<Rightarrow> world" where
  "quietWorld ord = on ''orderFailed'' silent (on ''orderCompleted'' silent
     (on ''taskCompleted'' silent (on ''taskStarted'' silent (on ''orderStarted'' silent
     (world0 ord)))))"

definition threeTasks :: order where
  "threeTasks = mkOrder ''o1'' [mkTask ''t1'' Resolves, mkTask ''t2'' (Rejects boom),
     mkTask ''t3'' Resolves]"

definition twoTasks :: order where
  "twoTasks = mkOrder ''o2'' [mkTask ''t1'' Resolves, mkTask ''t2'' Resolves]"

definition oneFailing :: order where
  "oneFailing = mkOrder ''o3'' [mkTask ''t1'' (Rejects boom)]"

definition oneTask :: order where
  "oneTask = mkOrder ''o1'' [mkTask ''t1'' Resolves]"

text \<open>An agent that a failed order has left in error.\<close>
definition erredAgent :: agent where
  "erredAgent = agentA\<lparr>agent_status := AgentError, orderHistory := [7]\<rparr>"

definition erredWorld :: world where
  "erredWorld = (quietWorld twoTasks)\<lparr>agents := [''a1'' \<mapsto> erredAgent]\<rparr>"

text \<open>A failing order at address 0, a succeeding one elsewhere, and a listener of
  \<open>orderCompleted\<close> that throws.\<close>
definition twoOrders :: world where
  "twoOrders = on ''orderCompleted'' thrower
     ((world0 oneTask)\<lparr>orders := (\<lambda>_. oneTask)(0 := oneFailing)\<rparr>)"

text \<open>A state seen while another call is waiting for an action: the agent is busy.\<close>
definition busyWorld :: world where
  "busyWorld = (world0 oneTask)\<lparr>agents := [''a1'' \<mapsto> busy agentA 3]\<rparr>"

text \<open>A new manager.\<close>
definition emptyWorld :: world where
  "emptyWorld = \<lparr>agents = Map.empty, eventListeners = Map.empty, orders = (\<lambda>_. threeTasks),
      clock = 0, published = [], invoked = [], performed = []\<rparr>"

text \<open>A task specification that carries a result, and the order that
  \<^verbatim>\<open>createOrder\<close> builds from it: its task is pending and has a result.\<close>
definition staleSpec :: task_spec where
  "staleSpec = \<lparr>spec_name = ''t1'', spec_description = [], spec_action = Rejects boom,
      spec_result = Some ''old'', spec_error = None, spec_startTime = None,
      spec_endTime = None\<rparr>"

definition staleOrder :: order where
  "staleOrder = createOrder ''o1'' [] [staleSpec] (\<lambda>_. ''id'') 0"

text \<open>A listener that throws when the agent has run an order before, and one that
  throws for the second agent.\<close>
definition picky :: handler where
  "picky p = (case p of
      OrderData a ord \<Rightarrow> if orderHistory a = [] then None else Some (ErrorObject ''listener failed'')
    | _ \<Rightarrow> None)"

definition grudge :: handler where
  "grudge p = (case p of
      OrderData a ord \<Rightarrow> if agent_id a = ''a2'' then Some (ErrorObject ''listener failed'') else None
    | _ \<Rightarrow> None)"

text \<open>Two idle agents.\<close>
definition agentB :: agent where
  "agentB = \<lparr>agent_id = ''a2'', agent_name = ''B'', agent_status = Idle,
              currentOrder = None, orderHistory = []\<rparr>"

definition twoAgents :: "order \<Rightarrow> world" where
  "twoAgents ord = (world0 ord)\<lparr>agents := [''a1'' \<mapsto> agentA, ''a2'' \<mapsto> agentB]\<rparr>"

text \<open>Two agents and three orders in the store: the one at address 1 fails.\<close>
definition statsWorld :: world where
  "statsWorld = (twoAgents oneTask)\<lparr>orders := (\<lambda>_. oneTask)(1 := oneFailing, 2 := twoTasks)\<rparr>"

definition statsCalls :: "(string \<times> order_ref) list" where
  "statsCalls = [(''a1'', 0), (''a2'', 3), (''a1'', 1), (''a1'', 2)]"

section \<open>Properties of the embedded functions\<close>

subsection \<open>Publishing an event\<close>

lemma forEach_eq:
  "forEach ev ls i p w =
     (outcome ls p, w\<lparr>invoked := invoked w @ map (Pair ev) [i..<i + called ls p]\<rparr>)"
proof (induction ls arbitrary: i w)
  case Nil
  show ?case by simp
next
  case (Cons h hs)
  show ?case
  proof (cases "h p")
    case None
    have "[i..<Suc (i + called hs p)] = i # [Suc i..<Suc i + called hs p]"
      by (simp add: upt_conv_Cons)
    with None Cons show ?thesis by simp
  next
    case (Some v)
    then show ?thesis by simp
  qed
qed

lemma emit_eq:
  "emit ev p w =
     (outcome (listenersOf w ev) p,
      w\<lparr>published := published w @ [(ev, p)],
        invoked := invoked w @ map (Pair ev) [0..<called (listenersOf w ev) p]\<rparr>)"
  by (simp add: emit_def listenersOf_def forEach_eq split: option.splits)

lemma outcome_disj: "outcome ls p = Return () \<or> (\<exists>v. outcome ls p = Throw (Callback v))"
  by (induction ls) (auto split: option.splits)

lemma outcome_cases:
  obtains (ret) "outcome ls p = Return ()" | (thr) v where "outcome ls p = Throw (Callback v)"
  using outcome_disj[of ls p] by blast

lemma outcome_quiet: "\<forall>h\<in>set ls. h p = None \<Longrightarrow> outcome ls p = Return ()"
  by (induction ls) auto

lemma called_quiet: "\<forall>h\<in>set ls. h p = None \<Longrightarrow> called ls p = length ls"
  by (induction ls) auto

lemma outcome_first:
  "j < length ls \<Longrightarrow> (ls ! j) p = Some v \<Longrightarrow> \<forall>i<j. (ls ! i) p = None \<Longrightarrow>
     outcome ls p = Throw (Callback v) \<and> called ls p = Suc j"
proof (induction ls arbitrary: j)
  case Nil
  then show ?case by simp
next
  case (Cons h hs)
  show ?case
  proof (cases j)
    case 0
    with Cons.prems show ?thesis by simp
  next
    case (Suc k)
    with Cons.prems have "h p = None" by auto
    moreover from Suc Cons.prems have "k < length hs" "(hs ! k) p = Some v" "\<forall>i<k. (hs ! i) p = None"
      by auto
    ultimately show ?thesis using Cons.IH[of k] Suc by simp
  qed
qed

subsection \<open>Running a task\<close>

lemma theTask_updTask:
  "i < length (tasks (orders w r)) \<Longrightarrow> theTask (updTask r i f w) r i = f (theTask w r i)"
  by (simp add: theTask_def updTask_def updOrder_def)

lemma updTask_putTask:
  "updTask r i f w = putTask r i (f (theTask w r i)) w"
  by (simp add: theTask_def updTask_def putTask_def updOrder_def)

lemma putTask_putTask [simp]: "putTask r i t (putTask r i s w) = putTask r i t w"
  by (simp add: putTask_def updOrder_def)

lemma theTask_putTask [simp]:
  "i < length (tasks (orders w r)) \<Longrightarrow> theTask (putTask r i t w) r i = t"
  by (simp add: theTask_def putTask_def updOrder_def)

lemma length_putTask [simp]:
  "length (tasks (orders (putTask r i t w) r')) = length (tasks (orders w r'))"
  by (simp add: putTask_def updOrder_def)

lemma executeTask_eq:
  assumes "i < length (tasks (orders w r))"
  shows "executeTask a r i w =
     (let t = theTask w r i; s = startedTask (clock w) t; f = finishedTask (clock w) t;
          c = called (listenersOf w ''taskStarted'') (TaskData a s)
      in case outcome (listenersOf w ''taskStarted'') (TaskData a s) of
           Throw e \<Rightarrow>
             (Throw e,
              (putTask r i s w)
                \<lparr>clock := Suc (clock w),
                 published := published w @ [(''taskStarted'', TaskData a s)],
                 invoked := invoked w @ map (Pair ''taskStarted'') [0..<c]\<rparr>)
         | Return _ \<Rightarrow>
             (outcome (listenersOf w ''taskCompleted'') (TaskData a f),
              (putTask r i f w)
                \<lparr>clock := Suc (Suc (clock w)),
                 published := published w @
                    [(''taskStarted'', TaskData a s), (''taskCompleted'', TaskData a f)],
                 invoked := invoked w @ map (Pair ''taskStarted'') [0..<c] @
                    map (Pair ''taskCompleted'')
                      [0..<called (listenersOf w ''taskCompleted'') (TaskData a f)],
                 performed := performed w @ [(r, i)]\<rparr>))"
  using assms
  by (cases "action (theTask w r i)")
     (simp_all add: executeTask_def emit_eq Let_def newDate_def settle_def updTask_putTask
      startedTask_def finishedTask_def listenersOf_def putTask_def updOrder_def theTask_def 
      split: completion.splits)

subsection \<open>What the loop leaves unchanged\<close>

lemma frame_refl: "frame r w w"
  by (simp add: frame_def)

lemma frame_trans: "frame r w w1 \<Longrightarrow> frame r w1 w2 \<Longrightarrow> frame r w w2"
  by (simp add: frame_def)

lemma listenersOf_frame: "frame r w w' \<Longrightarrow> listenersOf w' ev = listenersOf w ev"
  by (simp add: frame_def listenersOf_def)

lemma quietOn_frame: "frame r w w' \<Longrightarrow> quietOn evs w' = quietOn evs w"
  by (simp add: quietOn_def listenersOf_frame)

lemma action_startedTask [simp]: "action (startedTask d t) = action t"
  "task_name (startedTask d t) = task_name t" "task_id (startedTask d t) = task_id t"
  "task_status (startedTask d t) = Running"
  by (simp_all add: startedTask_def)

lemma action_finishedTask [simp]: "action (finishedTask d t) = action t"
  "task_name (finishedTask d t) = task_name t" "task_id (finishedTask d t) = task_id t"
  by (simp_all add: finishedTask_def split: action_outcome.splits)

lemma frame_putTask:
  "i < length (tasks (orders w r)) \<Longrightarrow>
   action t = action (theTask w r i) \<Longrightarrow> task_name t = task_name (theTask w r i) \<Longrightarrow>
   task_id t = task_id (theTask w r i) \<Longrightarrow> frame r w (putTask r i t w)"
  by (simp add: frame_def putTask_def updOrder_def theTask_def nth_list_update)

lemma frame_logs [simp]:
  "frame r w (w'\<lparr>published := p\<rparr>) = frame r w w'"
  "frame r w (w'\<lparr>invoked := q\<rparr>) = frame r w w'"
  "frame r w (w'\<lparr>performed := s\<rparr>) = frame r w w'"
  "frame r w (w'\<lparr>clock := c\<rparr>) = frame r w w'"
  by (simp_all add: frame_def theTask_def)

lemma frame_setAgent [simp]: "frame r w (setAgent i a w') = frame r w w'"
  by (simp add: frame_def setAgent_def theTask_def)

lemma frame_updOrder_status [simp]:
  "frame r w (updOrder r (\<lambda>ord. ord\<lparr>order_status := s\<rparr>) w') = frame r w w'"
  by (simp add: frame_def updOrder_def theTask_def)

lemma executeTask_agents [simp]: "agents (snd (executeTask a r i w)) = agents w"
  by (simp add: executeTask_def emit_eq Let_def newDate_def settle_def updTask_def updOrder_def
      split: completion.splits action_outcome.splits)

lemma executeTask_status [simp]:
  "order_status (orders (snd (executeTask a r i w)) r') = order_status (orders w r')"
  by (simp add: executeTask_def emit_eq Let_def newDate_def settle_def updTask_def updOrder_def
      split: completion.splits action_outcome.splits)

lemma executeTask_frame:
  assumes "i < length (tasks (orders w r))"
  shows "frame r w (snd (executeTask a r i w))"
  using assms
  by (simp add: executeTask_eq Let_def frame_putTask split: completion.splits)

lemma executeTask_other:
  assumes "i < length (tasks (orders w r))" "j \<noteq> i"
  shows "theTask (snd (executeTask a r i w)) r j = theTask w r j"
  using assms
  by (simp add: executeTask_eq Let_def putTask_def updOrder_def theTask_def split: completion.splits)

lemma outcome_Throw: "outcome ls p = Throw e \<Longrightarrow> \<exists>v. e = Callback v"
  using outcome_disj[of ls p] by auto

lemma theTask_logs [simp]:
  "theTask (w\<lparr>published := p\<rparr>) = theTask w"
  "theTask (w\<lparr>invoked := q\<rparr>) = theTask w"
  "theTask (w\<lparr>performed := s\<rparr>) = theTask w"
  "theTask (w\<lparr>clock := c\<rparr>) = theTask w"
  by (simp_all add: theTask_def fun_eq_iff)

lemma executeTask_result:
  assumes "i < length (tasks (orders w r))"
  shows "fst (executeTask a r i w) = Return () \<or> (\<exists>v. fst (executeTask a r i w) = Throw (Callback v))"
proof -
  let ?s = "outcome (listenersOf w ''taskStarted'') (TaskData a (startedTask (clock w) (theTask w r i)))"
  let ?f = "outcome (listenersOf w ''taskCompleted'') (TaskData a (finishedTask (clock w) (theTask w r i)))"
  have "?s = Return () \<or> (\<exists>v. ?s = Throw (Callback v))" "?f = Return () \<or> (\<exists>v. ?f = Throw (Callback v))"
    by (rule outcome_disj)+
  with assms show ?thesis
    by (auto simp add: executeTask_eq Let_def split: completion.splits)
qed

lemma executeTask_returned:
  assumes "i < length (tasks (orders w r))" "executeTask a r i w = (Return (), w')"
  shows "theTask w' r i = finishedTask (clock w) (theTask w r i)"
  using assms
  by (auto simp add: executeTask_eq Let_def split: completion.splits)

lemma runTasks_frame:
  "\<forall>i\<in>set is. i < length (tasks (orders w r)) \<Longrightarrow> frame r w (snd (runTasks a r is w))"
proof (induction "is" arbitrary: w)
  case Nil
  show ?case by (simp add: frame_refl)
next
  case (Cons i rest)
  obtain c w1 where e: "executeTask a r i w = (c, w1)" by (cases "executeTask a r i w")
  from Cons.prems have f: "frame r w w1" using executeTask_frame[of i w r a] e by simp
  with Cons.prems have "\<forall>i\<in>set rest. i < length (tasks (orders w1 r))" by (simp add: frame_def)
  then have "frame r w1 (snd (runTasks a r rest w1))" by (rule Cons.IH)
  with f have "frame r w (snd (runTasks a r rest w1))" by (rule frame_trans)
  with f e show ?case by (simp split: completion.splits)
qed

lemma runTasks_other:
  "\<forall>i\<in>set is. i < length (tasks (orders w r)) \<Longrightarrow> j \<notin> set is \<Longrightarrow>
     theTask (snd (runTasks a r is w)) r j = theTask w r j"
proof (induction "is" arbitrary: w)
  case Nil
  show ?case by simp
next
  case (Cons i rest)
  obtain c w1 where e: "executeTask a r i w = (c, w1)" by (cases "executeTask a r i w")
  from Cons.prems have f: "frame r w w1" using executeTask_frame[of i w r a] e by simp
  from Cons.prems have o: "theTask w1 r j = theTask w r j" using executeTask_other[of i w r j a] e by simp
  from f Cons.prems have "\<forall>i\<in>set rest. i < length (tasks (orders w1 r))" by (simp add: frame_def)
  with Cons.prems have "theTask (snd (runTasks a r rest w1)) r j = theTask w1 r j"
    using Cons.IH[of w1] by simp
  with o e show ?case by (simp split: completion.splits)
qed

lemma runTasks_agents [simp]: "agents (snd (runTasks a r is w)) = agents w"
proof (induction "is" arbitrary: w)
  case Nil
  show ?case by simp
next
  case (Cons i rest)
  obtain c w1 where e: "executeTask a r i w = (c, w1)" by (cases "executeTask a r i w")
  then have "agents w1 = agents w" using executeTask_agents[of a r i w] by simp
  with e Cons.IH[of w1] show ?case by (simp split: completion.splits)
qed

lemma runTasks_status [simp]:
  "order_status (orders (snd (runTasks a r is w)) r') = order_status (orders w r')"
proof (induction "is" arbitrary: w)
  case Nil
  show ?case by simp
next
  case (Cons i rest)
  obtain c w1 where e: "executeTask a r i w = (c, w1)" by (cases "executeTask a r i w")
  then have "order_status (orders w1 r') = order_status (orders w r')"
    using executeTask_status[of a r i w r'] by simp
  with e Cons.IH[of w1] show ?case by (simp split: completion.splits)
qed

lemma runTasks_result:
  "\<forall>i\<in>set is. i < length (tasks (orders w r)) \<Longrightarrow>
     fst (runTasks a r is w) = Return () \<or> (\<exists>v. fst (runTasks a r is w) = Throw (Callback v))
     \<or> (\<exists>n e. fst (runTasks a r is w) = Throw (TaskFailed n e))"
proof (induction "is" arbitrary: w)
  case Nil
  show ?case by simp
next
  case (Cons i rest)
  obtain c w1 where e: "executeTask a r i w = (c, w1)" by (cases "executeTask a r i w")
  from Cons.prems have f: "frame r w w1" using executeTask_frame[of i w r a] e by simp
  from f Cons.prems have "\<forall>i\<in>set rest. i < length (tasks (orders w1 r))" by (simp add: frame_def)
  from Cons.IH[OF this] Cons.prems executeTask_result[of i w r a] e show ?case
    by (auto split: completion.splits)
qed

subsection \<open>The blocks of executeOrder\<close>

lemma frame_emit [simp]: "frame r w (snd (emit ev p w')) = frame r w w'"
  by (simp add: emit_eq)

lemma agents_emit [simp]: "agents (snd (emit ev p w)) = agents w"
  by (simp add: emit_eq)

lemma orders_emit [simp]: "orders (snd (emit ev p w)) = orders w"
  by (simp add: emit_eq)

lemma emit_result: "fst (emit ev p w) = Return () \<or> (\<exists>v. fst (emit ev p w) = Throw (Callback v))"
  using outcome_disj[of "listenersOf w ev" p] by (simp add: emit_eq)

lemma tryBlock_agents [simp]: "agents (snd (tryBlock a r w)) = agents w"
proof -
  obtain c w1 where e: "runTasks a r [0..<length (tasks (orders w r))] w = (c, w1)"
    by (cases "runTasks a r [0..<length (tasks (orders w r))] w")
  then have "w1 = snd (runTasks a r [0..<length (tasks (orders w r))] w)" by simp
  then have "agents w1 = agents w" by simp
  with e show ?thesis
    by (simp add: tryBlock_def Let_def updOrder_def split: completion.splits)
qed

lemma tryBlock_frame: "frame r w (snd (tryBlock a r w))"
proof -
  obtain c w1 where e: "runTasks a r [0..<length (tasks (orders w r))] w = (c, w1)"
    by (cases "runTasks a r [0..<length (tasks (orders w r))] w")
  then have "frame r w w1" using runTasks_frame[of "[0..<length (tasks (orders w r))]" w r a] by simp
  with e show ?thesis
    by (simp add: tryBlock_def Let_def split: completion.splits)
qed

lemma tryBlock_status:
  "order_status (orders (snd (tryBlock a r w)) r) =
     (if fst (runTasks a r [0..<length (tasks (orders w r))] w) = Return ()
      then OrderCompleted else order_status (orders w r))"
proof -
  obtain c w1 where e: "runTasks a r [0..<length (tasks (orders w r))] w = (c, w1)"
    by (cases "runTasks a r [0..<length (tasks (orders w r))] w")
  then have "w1 = snd (runTasks a r [0..<length (tasks (orders w r))] w)" by simp
  then have "order_status (orders w1 r) = order_status (orders w r)" by simp
  with e show ?thesis
    by (simp add: tryBlock_def Let_def updOrder_def split: completion.splits)
qed

lemma tryBlock_result:
  "fst (tryBlock a r w) = Return () \<or> (\<exists>v. fst (tryBlock a r w) = Throw (Callback v))
     \<or> (\<exists>n e. fst (tryBlock a r w) = Throw (TaskFailed n e))"
proof -
  obtain c w1 where e: "runTasks a r [0..<length (tasks (orders w r))] w = (c, w1)"
    by (cases "runTasks a r [0..<length (tasks (orders w r))] w")
  let ?w2 = "updOrder r (\<lambda>ord. ord\<lparr>order_status := OrderCompleted\<rparr>) w1"
  from e runTasks_result[of "[0..<length (tasks (orders w r))]" w r a]
    emit_result[of "''orderCompleted''" "OrderData a (orders ?w2 r)" ?w2]
  show ?thesis
    by (auto simp add: tryBlock_def Let_def split: completion.splits)
qed

lemma tryBlock_returned:
  "fst (tryBlock a r w) = Return () \<Longrightarrow> fst (runTasks a r [0..<length (tasks (orders w r))] w) = Return ()"
  by (cases "runTasks a r [0..<length (tasks (orders w r))] w")
     (auto simp add: tryBlock_def split: completion.splits)

lemma catchBlock_agents [simp]:
  "agents (snd (catchBlock agentId a r e w)) = (agents w)(agentId \<mapsto> a\<lparr>agent_status := AgentError\<rparr>)"
  by (simp add: catchBlock_def Let_def emit_eq setAgent_def updOrder_def split: completion.splits)

lemma catchBlock_orders [simp]:
  "orders (snd (catchBlock agentId a r e w)) = (orders w)(r := (orders w r)\<lparr>order_status := OrderFailed\<rparr>)"
  by (simp add: catchBlock_def Let_def emit_eq setAgent_def updOrder_def split: completion.splits)

lemma catchBlock_listeners [simp]:
  "eventListeners (snd (catchBlock agentId a r e w)) = eventListeners w"
  by (simp add: catchBlock_def Let_def emit_eq setAgent_def updOrder_def split: completion.splits)

lemma catchBlock_result: "\<exists>e'. fst (catchBlock agentId a r e w) = Throw e'"
  by (simp add: catchBlock_def Let_def emit_eq split: completion.splits)

lemma catchBlock_frame: "frame r w (snd (catchBlock agentId a r e w))"
  by (simp add: frame_def theTask_def)

lemma finallyBlock_agents:
  "agents w agentId = Some a \<Longrightarrow>
   agents (finallyBlock agentId r w) =
     (agents w)(agentId \<mapsto> a\<lparr>orderHistory := orderHistory a @ [r], currentOrder := None,
        agent_status := (if agent_status a = AgentError then AgentError else Idle)\<rparr>)"
proof (cases "agent_status a = AgentError")
  case True
  assume a: "agents w agentId = Some a"
  let ?b = "a\<lparr>orderHistory := orderHistory a @ [r], currentOrder := None\<rparr>"
  from True have "?b\<lparr>agent_status := AgentError\<rparr> = ?b"
    by (intro agent.equality) simp_all
  then have eq: "a\<lparr>orderHistory := orderHistory a @ [r], currentOrder := None,
      agent_status := AgentError\<rparr> = ?b" by simp
  from a True have fb: "agents (finallyBlock agentId r w) = (agents w)(agentId \<mapsto> ?b)"
    by (simp add: finallyBlock_def Let_def setAgent_def)
  show ?thesis by (simp only: True simp_thms if_True eq fb)
next
  case False
  assume "agents w agentId = Some a"
  with False show ?thesis by (simp add: finallyBlock_def Let_def setAgent_def)
qed

lemma finallyBlock_other [simp]:
  "orders (finallyBlock agentId r w) = orders w"
  "eventListeners (finallyBlock agentId r w) = eventListeners w"
  "published (finallyBlock agentId r w) = published w"
  "invoked (finallyBlock agentId r w) = invoked w"
  "performed (finallyBlock agentId r w) = performed w"
  by (simp_all add: finallyBlock_def Let_def setAgent_def split: option.splits)

lemma frame_finallyBlock [simp]: "frame r w (finallyBlock agentId r' w') = frame r w w'"
  by (simp add: frame_def theTask_def)

lemma executeOrder_aborted:
  assumes "agents w agentId = Some a" "agent_status a \<noteq> Busy"
    and "outcome (listenersOf w ''orderStarted'') (startPayload a r w) = Throw e"
  shows "fst (executeOrder agentId r w) = Throw e"
    and "agents (snd (executeOrder agentId r w)) =
           (agents w)(agentId \<mapsto> a\<lparr>currentOrder := Some r, agent_status := Busy\<rparr>)"
    and "orders (snd (executeOrder agentId r w)) = (orders w)(r := (orders w r)\<lparr>order_status := InProgress\<rparr>)"
  using assms
  by (simp_all add: executeOrder_def Let_def emit_eq setAgent_def updOrder_def listenersOf_def startPayload_def)

lemma executeOrder_cleanup:
  assumes "agents w agentId = Some a" "agent_status a \<noteq> Busy"
    and "outcome (listenersOf w ''orderStarted'') (startPayload a r w) = Return ()"
  shows "agents (snd (executeOrder agentId r w)) =
           (agents w)(agentId \<mapsto> a\<lparr>orderHistory := orderHistory a @ [r], currentOrder := None,
              agent_status := (if fst (executeOrder agentId r w) = Return () then Idle else AgentError)\<rparr>)"
    and "order_status (orders (snd (executeOrder agentId r w)) r) =
           (if fst (executeOrder agentId r w) = Return () then OrderCompleted else OrderFailed)"
    and "frame r w (snd (executeOrder agentId r w))"
proof -
  let ?a2 = "a\<lparr>currentOrder := Some r, agent_status := Busy\<rparr>"
  let ?w2 = "updOrder r (\<lambda>ord. ord\<lparr>order_status := InProgress\<rparr>) (setAgent agentId ?a2 w)"
  let ?p = "OrderData ?a2 (orders ?w2 r)"
  obtain w3 where e3: "emit ''orderStarted'' ?p ?w2 = (Return (), w3)"
    using assms(3)
    by (simp add: emit_eq listenersOf_def setAgent_def updOrder_def startPayload_def)
  from e3 have w3: "w3 = snd (emit ''orderStarted'' ?p ?w2)" by simp
  have a3: "agents w3 = (agents w)(agentId \<mapsto> ?a2)"
    unfolding w3 by (simp add: setAgent_def updOrder_def)
  have f3: "frame r w w3"
    unfolding w3 by (simp add: frame_refl)
  obtain c w4 where e4: "tryBlock ?a2 r w3 = (c, w4)" by (cases "tryBlock ?a2 r w3")
  from e4 have w4: "w4 = snd (tryBlock ?a2 r w3)" by simp
  have a4: "agents w4 = (agents w)(agentId \<mapsto> ?a2)"
    unfolding w4 using a3 by simp
  have "frame r w3 w4"
    unfolding w4 by (rule tryBlock_frame)
  with f3 have f4: "frame r w w4" by (rule frame_trans)
  have ex: "executeOrder agentId r w =
      (case c of Return _ \<Rightarrow> (Return (), finallyBlock agentId r w4)
       | Throw e \<Rightarrow> (fst (catchBlock agentId ?a2 r e w4),
                      finallyBlock agentId r (snd (catchBlock agentId ?a2 r e w4))))"
    using assms(1,2) e3 e4
    by (simp add: executeOrder_def Let_def split: completion.splits prod.splits)
  show "agents (snd (executeOrder agentId r w)) =
           (agents w)(agentId \<mapsto> a\<lparr>orderHistory := orderHistory a @ [r], currentOrder := None,
              agent_status := (if fst (executeOrder agentId r w) = Return () then Idle else AgentError)\<rparr>)"
  proof (cases c)
    case (Return u)
    with ex a4 show ?thesis by (simp add: finallyBlock_agents)
  next
    case (Throw e)
    obtain e' where "fst (catchBlock agentId ?a2 r e w4) = Throw e'"
      using catchBlock_result by blast
    with Throw ex a4 show ?thesis
      by (simp add: finallyBlock_agents[where a="?a2\<lparr>agent_status := AgentError\<rparr>"])
  qed
  show "order_status (orders (snd (executeOrder agentId r w)) r) =
           (if fst (executeOrder agentId r w) = Return () then OrderCompleted else OrderFailed)"
  proof (cases c)
    case (Return u)
    then have "fst (tryBlock ?a2 r w3) = Return ()" using e4 by simp
    then have "fst (runTasks ?a2 r [0..<length (tasks (orders w3 r))] w3) = Return ()"
      by (rule tryBlock_returned)
    then have "order_status (orders w4 r) = OrderCompleted"
      unfolding w4 by (simp add: tryBlock_status)
    with Return ex show ?thesis by simp
  next
    case (Throw e)
    obtain e' where "fst (catchBlock agentId ?a2 r e w4) = Throw e'"
      using catchBlock_result by blast
    with Throw ex show ?thesis by simp
  qed
  show "frame r w (snd (executeOrder agentId r w))"
  proof (cases c)
    case (Return u)
    with ex f4 show ?thesis by simp
  next
    case (Throw e)
    have "frame r w4 (snd (catchBlock agentId ?a2 r e w4))" by (rule catchBlock_frame)
    with f4 have "frame r w (snd (catchBlock agentId ?a2 r e w4))" by (rule frame_trans)
    with Throw ex show ?thesis by simp
  qed
qed

subsection \<open>Listeners that do not throw\<close>

lemma quietOn_outcome:
  "quietOn evs w \<Longrightarrow> ev \<in> evs \<Longrightarrow> outcome (listenersOf w ev) p = Return ()"
  by (simp add: quietOn_def outcome_quiet)

lemma quietOn_called:
  "quietOn evs w \<Longrightarrow> ev \<in> evs \<Longrightarrow> called (listenersOf w ev) p = length (listenersOf w ev)"
  by (simp add: quietOn_def called_quiet)

lemma quietOn_mono: "quietOn evs w \<Longrightarrow> evs' \<subseteq> evs \<Longrightarrow> quietOn evs' w"
  by (auto simp add: quietOn_def)

lemma executeTask_quiet:
  assumes "quietOn {''taskStarted'', ''taskCompleted''} w" "i < length (tasks (orders w r))"
  shows "fst (executeTask a r i w) = Return ()"
    and "theTask (snd (executeTask a r i w)) r i = finishedTask (clock w) (theTask w r i)"
    and "performed (snd (executeTask a r i w)) = performed w @ [(r, i)]"
    and "map label (published (snd (executeTask a r i w))) = map label (published w) @ taskEvents w r i"
proof -
  have "outcome (listenersOf w ''taskStarted'') p = Return ()"
    "outcome (listenersOf w ''taskCompleted'') p = Return ()" for p
    using assms(1) by (simp_all add: quietOn_outcome)
  with assms(2) show "fst (executeTask a r i w) = Return ()"
    and "theTask (snd (executeTask a r i w)) r i = finishedTask (clock w) (theTask w r i)"
    and "performed (snd (executeTask a r i w)) = performed w @ [(r, i)]"
    and "map label (published (snd (executeTask a r i w))) = map label (published w) @ taskEvents w r i"
    by (simp_all add: executeTask_eq Let_def label_def taskEvents_def)
qed

lemma runTasks_completed:
  "\<forall>i\<in>set is. i < length (tasks (orders w r)) \<Longrightarrow> fst (runTasks a r is w) = Return () \<Longrightarrow>
     \<forall>i\<in>set is. task_status (theTask (snd (runTasks a r is w)) r i) = Completed"
proof (induction "is" arbitrary: w)
  case Nil
  show ?case by simp
next
  case (Cons i rest)
  obtain c w1 where e: "executeTask a r i w = (c, w1)" by (cases "executeTask a r i w")
  from Cons.prems(2) e have c: "c = Return ()" by (cases c) simp_all
  from Cons.prems(1) have f: "frame r w w1" using executeTask_frame[of i w r a] e by simp
  from Cons.prems(1) c e have t: "theTask w1 r i = finishedTask (clock w) (theTask w r i)"
    using executeTask_returned[of i w r a w1] by simp
  from Cons.prems(2) e c have nf: "task_status (theTask w1 r i) \<noteq> Failed"
    by (auto split: if_splits)
  with t have compl: "task_status (theTask w1 r i) = Completed"
    by (simp add: finishedTask_def split: action_outcome.splits)
  from Cons.prems(2) e c nf have rest: "fst (runTasks a r rest w1) = Return ()"
    and run: "runTasks a r (i # rest) w = runTasks a r rest w1" by simp_all
  from f Cons.prems(1) have rng: "\<forall>i\<in>set rest. i < length (tasks (orders w1 r))"
    by (simp add: frame_def)
  from Cons.IH[OF rng rest]
  have ih: "\<forall>j\<in>set rest. task_status (theTask (snd (runTasks a r rest w1)) r j) = Completed" .
  have "task_status (theTask (snd (runTasks a r rest w1)) r i) = Completed"
  proof (cases "i \<in> set rest")
    case True
    with ih show ?thesis by simp
  next
    case False
    with rng have "theTask (snd (runTasks a r rest w1)) r i = theTask w1 r i"
      by (simp add: runTasks_other)
    with compl show ?thesis by simp
  qed
  with ih run show ?case by simp
qed

lemma runTasks_quiet_all:
  "quietOn {''taskStarted'', ''taskCompleted''} w \<Longrightarrow>
   \<forall>i\<in>set is. i < length (tasks (orders w r)) \<Longrightarrow>
   \<forall>i\<in>set is. action (theTask w r i) = Resolves \<Longrightarrow>
   fst (runTasks a r is w) = Return () \<and>
   performed (snd (runTasks a r is w)) = performed w @ map (Pair r) is \<and>
   map label (published (snd (runTasks a r is w))) =
     map label (published w) @ concat (map (taskEvents w r) is)"
proof (induction "is" arbitrary: w)
  case Nil
  show ?case by simp
next
  case (Cons i rest)
  let ?w1 = "snd (executeTask a r i w)"
  from Cons.prems have i: "i < length (tasks (orders w r))" by simp
  note et = executeTask_quiet[OF Cons.prems(1) i, of a]
  have f: "frame r w ?w1" using i by (rule executeTask_frame)
  from et(2) Cons.prems(3) have st: "task_status (theTask ?w1 r i) \<noteq> Failed"
    by (simp add: finishedTask_def)
  from et(1) st have run: "runTasks a r (i # rest) w = runTasks a r rest ?w1"
    by (cases "executeTask a r i w") simp
  from f Cons.prems(1) have q: "quietOn {''taskStarted'', ''taskCompleted''} ?w1"
    by (simp add: quietOn_frame)
  from f Cons.prems(2) have rng: "\<forall>i\<in>set rest. i < length (tasks (orders ?w1 r))"
    by (simp add: frame_def)
  from f Cons.prems(3) have res: "\<forall>i\<in>set rest. action (theTask ?w1 r i) = Resolves"
    by (simp add: frame_def)
  from f have te: "taskEvents ?w1 r = taskEvents w r"
    by (simp add: taskEvents_def frame_def fun_eq_iff)
  from Cons.IH[OF q rng res] run et(3,4) te show ?case by simp
qed

lemma finishedTask_Rejects:
  "action t = Rejects v \<Longrightarrow>
     task_status (finishedTask d t) = Failed \<and> error (finishedTask d t) = Some (describe v)"
  by (simp add: finishedTask_def)

lemma finishedTask_Resolves:
  "action t = Resolves \<Longrightarrow>
     task_status (finishedTask d t) = Completed \<and> result (finishedTask d t) = Some ''Success''"
  by (simp add: finishedTask_def)

lemma runTasks_quiet_fail:
  "quietOn {''taskStarted'', ''taskCompleted''} w \<Longrightarrow>
   \<forall>i\<in>set (pre @ [k]). i < length (tasks (orders w r)) \<Longrightarrow>
   \<forall>i\<in>set pre. action (theTask w r i) = Resolves \<Longrightarrow>
   action (theTask w r k) = Rejects v \<Longrightarrow>
   fst (runTasks a r (pre @ k # post) w) =
     Throw (TaskFailed (task_name (theTask w r k)) (describe v)) \<and>
   performed (snd (runTasks a r (pre @ k # post) w)) = performed w @ map (Pair r) (pre @ [k]) \<and>
   map label (published (snd (runTasks a r (pre @ k # post) w))) =
     map label (published w) @ concat (map (taskEvents w r) (pre @ [k])) \<and>
   (\<forall>j. j \<notin> set (pre @ [k]) \<longrightarrow>
        theTask (snd (runTasks a r (pre @ k # post) w)) r j = theTask w r j) \<and>
   task_status (theTask (snd (runTasks a r (pre @ k # post) w)) r k) = Failed \<and>
   error (theTask (snd (runTasks a r (pre @ k # post) w)) r k) = Some (describe v) \<and>
   (\<forall>i\<in>set pre. task_status (theTask (snd (runTasks a r (pre @ k # post) w)) r i) = Completed)"
proof (induction pre arbitrary: w)
  case Nil
  let ?w1 = "snd (executeTask a r k w)"
  from Nil.prems have k: "k < length (tasks (orders w r))" by simp
  note et = executeTask_quiet[OF Nil.prems(1) k, of a]
  from et(2) Nil.prems(4) have st: "task_status (theTask ?w1 r k) = Failed"
    "error (theTask ?w1 r k) = Some (describe v)" "task_name (theTask ?w1 r k) = task_name (theTask w r k)"
    by (simp_all add: finishedTask_Rejects)
  from et(1) st have run: "runTasks a r (k # post) w =
      (Throw (TaskFailed (task_name (theTask w r k)) (describe v)), ?w1)"
    by (cases "executeTask a r k w") (simp add: shown_def)
  have "\<forall>j. j \<noteq> k \<longrightarrow> theTask ?w1 r j = theTask w r j"
    using k by (simp add: executeTask_other)
  with run et(3,4) st show ?case by simp
next
  case (Cons i pre)
  let ?w1 = "snd (executeTask a r i w)"
  from Cons.prems have i: "i < length (tasks (orders w r))" by simp
  note et = executeTask_quiet[OF Cons.prems(1) i, of a]
  have f: "frame r w ?w1" using i by (rule executeTask_frame)
  from Cons.prems(3) have ri: "action (theTask w r i) = Resolves" by simp
  with Cons.prems(4) have ik: "i \<noteq> k" by auto
  from et(2) ri have st: "task_status (theTask ?w1 r i) = Completed"
    by (simp add: finishedTask_Resolves)
  from et(1) st have run: "runTasks a r ((i # pre) @ k # post) w = runTasks a r (pre @ k # post) ?w1"
    by (cases "executeTask a r i w") simp
  from f Cons.prems(1) have q: "quietOn {''taskStarted'', ''taskCompleted''} ?w1"
    by (simp add: quietOn_frame)
  from f Cons.prems(2) have rng: "\<forall>i\<in>set (pre @ [k]). i < length (tasks (orders ?w1 r))"
    by (simp add: frame_def)
  from f Cons.prems(3) have res: "\<forall>i\<in>set pre. action (theTask ?w1 r i) = Resolves"
    by (simp add: frame_def)
  from f Cons.prems(4) have rej: "action (theTask ?w1 r k) = Rejects v"
    by (simp add: frame_def)
  from f have te: "taskEvents ?w1 r = taskEvents w r"
    by (simp add: taskEvents_def frame_def fun_eq_iff)
  from f have nm: "task_name (theTask ?w1 r k) = task_name (theTask w r k)"
    by (simp add: frame_def)
  have oth: "\<forall>j. j \<noteq> i \<longrightarrow> theTask ?w1 r j = theTask w r j"
    using i by (simp add: executeTask_other)
  let ?w' = "snd (runTasks a r (pre @ k # post) ?w1)"
  note ih = Cons.IH[OF q rng res rej]
  have "task_status (theTask ?w' r i) = Completed"
  proof (cases "i \<in> set pre")
    case True
    with ih show ?thesis by simp
  next
    case False
    with ik ih have "theTask ?w' r i = theTask ?w1 r i" by simp
    with st show ?thesis by simp
  qed
  with ih run et(3,4) te nm oth show ?case by simp
qed

subsection \<open>A whole call\<close>

lemma startWorld_simps [simp]:
  "agents (startWorld agentId a r w) = (agents w)(agentId \<mapsto> busy a r)"
  "eventListeners (startWorld agentId a r w) = eventListeners w"
  "tasks (orders (startWorld agentId a r w) r') = tasks (orders w r')"
  "order_id (orders (startWorld agentId a r w) r') = order_id (orders w r')"
  "performed (startWorld agentId a r w) = performed w"
  "published (startWorld agentId a r w) = published w @ [(''orderStarted'', startPayload a r w)]"
  "theTask (startWorld agentId a r w) = theTask w"
  "listenersOf (startWorld agentId a r w) = listenersOf w"
  "quietOn evs (startWorld agentId a r w) = quietOn evs w"
  by (simp_all add: startWorld_def emit_eq updOrder_def setAgent_def theTask_def listenersOf_def
      quietOn_def fun_eq_iff)

lemma executeOrder_eq:
  assumes "agents w agentId = Some a" "agent_status a \<noteq> Busy"
    and "outcome (listenersOf w ''orderStarted'') (startPayload a r w) = Return ()"
  shows "executeOrder agentId r w =
     (case fst (tryBlock (busy a r) r (startWorld agentId a r w)) of
        Return _ \<Rightarrow>
          (Return (), finallyBlock agentId r (snd (tryBlock (busy a r) r (startWorld agentId a r w))))
      | Throw e \<Rightarrow>
          (fst (catchBlock agentId (busy a r) r e (snd (tryBlock (busy a r) r (startWorld agentId a r w)))),
           finallyBlock agentId r
             (snd (catchBlock agentId (busy a r) r e (snd (tryBlock (busy a r) r (startWorld agentId a r w)))))))"
proof -
  let ?w2 = "updOrder r (\<lambda>ord. ord\<lparr>order_status := InProgress\<rparr>) (setAgent agentId (busy a r) w)"
  have p: "OrderData (busy a r) (orders ?w2 r) = startPayload a r w"
    by (simp add: startPayload_def busy_def updOrder_def setAgent_def)
  have "fst (emit ''orderStarted'' (startPayload a r w) ?w2) = Return ()"
    using assms(3) by (simp add: emit_eq listenersOf_def updOrder_def setAgent_def)
  then have e: "emit ''orderStarted'' (startPayload a r w) ?w2 = (Return (), startWorld agentId a r w)"
    by (simp add: startWorld_def prod_eq_iff)
  show ?thesis
    using assms(1,2)
    by (simp add: executeOrder_def Let_def busy_def[symmetric] p e
        split: completion.splits prod.splits)
qed

lemma all_tasks_nth:
  "(\<forall>t\<in>set (tasks (orders w r)). P t) = (\<forall>i<length (tasks (orders w r)). P (theTask w r i))"
  unfolding theTask_def by (metis in_set_conv_nth)

lemma tryBlock_quiet_success:
  assumes "quietOn {''taskStarted'', ''taskCompleted'', ''orderCompleted''} w"
    and "\<forall>t\<in>set (tasks (orders w r)). action t = Resolves"
  shows "fst (tryBlock a r w) = Return ()"
    and "performed (snd (tryBlock a r w)) = performed w @ map (Pair r) [0..<length (tasks (orders w r))]"
    and "map label (published (snd (tryBlock a r w))) =
           map label (published w) @ concat (map (taskEvents w r) [0..<length (tasks (orders w r))])
           @ [(''orderCompleted'', order_id (orders w r))]"
    and "\<forall>t\<in>set (tasks (orders (snd (tryBlock a r w)) r)). task_status t = Completed"
proof -
  let ?is = "[0..<length (tasks (orders w r))]"
  let ?w1 = "snd (runTasks a r ?is w)"
  let ?w2 = "updOrder r (\<lambda>ord. ord\<lparr>order_status := OrderCompleted\<rparr>) ?w1"
  from assms(1) have q: "quietOn {''taskStarted'', ''taskCompleted''} w"
    by (rule quietOn_mono) auto
  have rng: "\<forall>i\<in>set ?is. i < length (tasks (orders w r))" by simp
  from assms(2) have res: "\<forall>i\<in>set ?is. action (theTask w r i) = Resolves"
    by (simp add: all_tasks_nth)
  note rt = runTasks_quiet_all[OF q rng res, of a]
  have f: "frame r w ?w1" using rng by (rule runTasks_frame)
  then have l: "listenersOf ?w2 ''orderCompleted'' = listenersOf w ''orderCompleted''"
    by (simp add: listenersOf_def frame_def updOrder_def)
  from assms(1) have oc: "outcome (listenersOf w ''orderCompleted'') p = Return ()" for p
    by (simp add: quietOn_outcome)
  from rt have tb: "tryBlock a r w = emit ''orderCompleted'' (OrderData a (orders ?w2 r)) ?w2"
    by (cases "runTasks a r ?is w") (simp add: tryBlock_def Let_def)
  from tb oc l show "fst (tryBlock a r w) = Return ()" by (simp add: emit_eq)
  from tb rt show "performed (snd (tryBlock a r w)) = performed w @ map (Pair r) ?is"
    by (simp add: emit_eq updOrder_def)
  from f have "order_id (orders ?w2 r) = order_id (orders w r)"
    by (simp add: frame_def updOrder_def)
  with tb rt show "map label (published (snd (tryBlock a r w))) =
           map label (published w) @ concat (map (taskEvents w r) ?is)
           @ [(''orderCompleted'', order_id (orders w r))]"
    by (simp add: emit_eq updOrder_def label_def)
  from rt rng have "\<forall>i\<in>set ?is. task_status (theTask ?w1 r i) = Completed"
    by (intro runTasks_completed) simp_all
  moreover from f have "length (tasks (orders ?w1 r)) = length (tasks (orders w r))"
    by (simp add: frame_def)
  ultimately have "\<forall>t\<in>set (tasks (orders ?w1 r)). task_status t = Completed"
    by (simp add: all_tasks_nth)
  with tb show "\<forall>t\<in>set (tasks (orders (snd (tryBlock a r w)) r)). task_status t = Completed"
    by (simp add: emit_eq updOrder_def)
qed

lemma catchBlock_quiet:
  assumes "quietOn {''orderFailed''} w"
  shows "fst (catchBlock agentId a r e w) = Throw e"
    and "performed (snd (catchBlock agentId a r e w)) = performed w"
    and "map label (published (snd (catchBlock agentId a r e w))) =
           map label (published w) @ [(''orderFailed'', order_id (orders w r))]"
proof -
  have "outcome (listenersOf w ''orderFailed'') p = Return ()" for p
    using assms by (simp add: quietOn_outcome)
  then show "fst (catchBlock agentId a r e w) = Throw e"
    and "performed (snd (catchBlock agentId a r e w)) = performed w"
    and "map label (published (snd (catchBlock agentId a r e w))) =
           map label (published w) @ [(''orderFailed'', order_id (orders w r))]"
    by (simp_all add: catchBlock_def Let_def emit_eq listenersOf_def setAgent_def updOrder_def label_def)
qed

lemma label_startPayload [simp]:
  "label (''orderStarted'', startPayload a r w) = (''orderStarted'', order_id (orders w r))"
  by (simp add: label_def startPayload_def)

lemma taskEvents_startWorld [simp]: "taskEvents (startWorld agentId a r w) = taskEvents w"
  by (simp add: taskEvents_def fun_eq_iff)

lemma executeOrder_quiet_success:
  assumes "agents w agentId = Some a" "agent_status a \<noteq> Busy"
    and "quietOn {''orderStarted'', ''taskStarted'', ''taskCompleted'', ''orderCompleted''} w"
    and "\<forall>t\<in>set (tasks (orders w r)). action t = Resolves"
  shows "fst (executeOrder agentId r w) = Return ()"
    and "agents (snd (executeOrder agentId r w)) =
           (agents w)(agentId \<mapsto> a\<lparr>orderHistory := orderHistory a @ [r], currentOrder := None,
              agent_status := Idle\<rparr>)"
    and "order_status (orders (snd (executeOrder agentId r w)) r) = OrderCompleted"
    and "length (tasks (orders (snd (executeOrder agentId r w)) r)) = length (tasks (orders w r))"
    and "\<forall>t\<in>set (tasks (orders (snd (executeOrder agentId r w)) r)). task_status t = Completed"
    and "map label (published (snd (executeOrder agentId r w))) =
           map label (published w) @ [(''orderStarted'', order_id (orders w r))]
           @ concat (map (taskEvents w r) [0..<length (tasks (orders w r))])
           @ [(''orderCompleted'', order_id (orders w r))]"
    and "performed (snd (executeOrder agentId r w)) =
           performed w @ map (Pair r) [0..<length (tasks (orders w r))]"
proof -
  let ?w3 = "startWorld agentId a r w"
  from assms(3) have os: "outcome (listenersOf w ''orderStarted'') (startPayload a r w) = Return ()"
    by (simp add: quietOn_outcome)
  from assms(3) have q: "quietOn {''taskStarted'', ''taskCompleted'', ''orderCompleted''} ?w3"
    by (simp add: quietOn_mono)
  from assms(4) have res: "\<forall>t\<in>set (tasks (orders ?w3 r)). action t = Resolves" by simp
  note tb = tryBlock_quiet_success[OF q res, of "busy a r"]
  note eq = executeOrder_eq[OF assms(1,2) os]
  from eq tb(1) show ret: "fst (executeOrder agentId r w) = Return ()" by simp
  from executeOrder_cleanup[OF assms(1,2) os] ret
  show "agents (snd (executeOrder agentId r w)) =
           (agents w)(agentId \<mapsto> a\<lparr>orderHistory := orderHistory a @ [r], currentOrder := None,
              agent_status := Idle\<rparr>)"
    and "order_status (orders (snd (executeOrder agentId r w)) r) = OrderCompleted"
    and "length (tasks (orders (snd (executeOrder agentId r w)) r)) = length (tasks (orders w r))"
    by (simp_all add: frame_def)
  from eq tb show "\<forall>t\<in>set (tasks (orders (snd (executeOrder agentId r w)) r)). task_status t = Completed"
    by simp
  from eq tb show "map label (published (snd (executeOrder agentId r w))) =
           map label (published w) @ [(''orderStarted'', order_id (orders w r))]
           @ concat (map (taskEvents w r) [0..<length (tasks (orders w r))])
           @ [(''orderCompleted'', order_id (orders w r))]"
    by simp
  from eq tb show "performed (snd (executeOrder agentId r w)) =
           performed w @ map (Pair r) [0..<length (tasks (orders w r))]"
    by simp
qed

lemma upt_split: "k < n \<Longrightarrow> [0..<n] = [0..<k] @ k # [Suc k..<n]"
  by (metis upt_conv_Cons upt_add_eq_append le_add_diff_inverse less_imp_le_nat zero_le)

lemma tryBlock_quiet_fail:
  assumes "quietOn {''taskStarted'', ''taskCompleted''} w"
    and "k < length (tasks (orders w r))"
    and "\<forall>i<k. action (theTask w r i) = Resolves"
    and "action (theTask w r k) = Rejects v"
  shows "fst (tryBlock a r w) = Throw (TaskFailed (task_name (theTask w r k)) (describe v))"
    and "performed (snd (tryBlock a r w)) = performed w @ map (Pair r) [0..<Suc k]"
    and "map label (published (snd (tryBlock a r w))) =
           map label (published w) @ concat (map (taskEvents w r) [0..<Suc k])"
    and "\<forall>j. k < j \<longrightarrow> theTask (snd (tryBlock a r w)) r j = theTask w r j"
    and "task_status (theTask (snd (tryBlock a r w)) r k) = Failed"
    and "error (theTask (snd (tryBlock a r w)) r k) = Some (describe v)"
    and "\<forall>i<k. task_status (theTask (snd (tryBlock a r w)) r i) = Completed"
proof -
  let ?n = "length (tasks (orders w r))"
  from assms(2) have sp: "[0..<?n] = [0..<k] @ k # [Suc k..<?n]" by (rule upt_split)
  from assms(2) have rng: "\<forall>i\<in>set ([0..<k] @ [k]). i < ?n" by auto
  from assms(3) have res: "\<forall>i\<in>set [0..<k]. action (theTask w r i) = Resolves" by simp
  note rt = runTasks_quiet_fail[OF assms(1) rng res assms(4), of a "[Suc k..<?n]"]
  from rt have tb: "tryBlock a r w = runTasks a r ([0..<k] @ k # [Suc k..<?n]) w"
    by (cases "runTasks a r ([0..<k] @ k # [Suc k..<?n]) w") (simp add: tryBlock_def sp[symmetric])
  from rt show "fst (tryBlock a r w) = Throw (TaskFailed (task_name (theTask w r k)) (describe v))"
    and "performed (snd (tryBlock a r w)) = performed w @ map (Pair r) [0..<Suc k]"
    and "map label (published (snd (tryBlock a r w))) =
           map label (published w) @ concat (map (taskEvents w r) [0..<Suc k])"
    and "\<forall>j. k < j \<longrightarrow> theTask (snd (tryBlock a r w)) r j = theTask w r j"
    and "task_status (theTask (snd (tryBlock a r w)) r k) = Failed"
    and "error (theTask (snd (tryBlock a r w)) r k) = Some (describe v)"
    and "\<forall>i<k. task_status (theTask (snd (tryBlock a r w)) r i) = Completed"
    unfolding tb by simp_all
qed

lemma theTask_catchBlock [simp]:
  "theTask (snd (catchBlock agentId a r e w)) = theTask w"
  by (simp add: theTask_def fun_eq_iff)

lemma theTask_finallyBlock [simp]: "theTask (finallyBlock agentId r w) = theTask w"
  by (simp add: theTask_def fun_eq_iff)

lemma executeOrder_quiet_fail:
  assumes "agents w agentId = Some a" "agent_status a \<noteq> Busy"
    and "quietOn {''orderStarted'', ''taskStarted'', ''taskCompleted'', ''orderFailed''} w"
    and "k < length (tasks (orders w r))"
    and "\<forall>i<k. action (theTask w r i) = Resolves"
    and "action (theTask w r k) = Rejects v"
  shows "fst (executeOrder agentId r w) = Throw (TaskFailed (task_name (theTask w r k)) (describe v))"
    and "agents (snd (executeOrder agentId r w)) =
           (agents w)(agentId \<mapsto> a\<lparr>orderHistory := orderHistory a @ [r], currentOrder := None,
              agent_status := AgentError\<rparr>)"
    and "order_status (orders (snd (executeOrder agentId r w)) r) = OrderFailed"
    and "length (tasks (orders (snd (executeOrder agentId r w)) r)) = length (tasks (orders w r))"
    and "\<forall>i<k. task_status (theTask (snd (executeOrder agentId r w)) r i) = Completed"
    and "task_status (theTask (snd (executeOrder agentId r w)) r k) = Failed"
    and "error (theTask (snd (executeOrder agentId r w)) r k) = Some (describe v)"
    and "\<forall>j. k < j \<longrightarrow> theTask (snd (executeOrder agentId r w)) r j = theTask w r j"
    and "performed (snd (executeOrder agentId r w)) = performed w @ map (Pair r) [0..<Suc k]"
    and "map label (published (snd (executeOrder agentId r w))) =
           map label (published w) @ [(''orderStarted'', order_id (orders w r))]
           @ concat (map (taskEvents w r) [0..<Suc k])
           @ [(''orderFailed'', order_id (orders w r))]"
proof -
  let ?w3 = "startWorld agentId a r w"
  let ?w4 = "snd (tryBlock (busy a r) r ?w3)"
  let ?e = "TaskFailed (task_name (theTask w r k)) (describe v)"
  from assms(3) have os: "outcome (listenersOf w ''orderStarted'') (startPayload a r w) = Return ()"
    by (simp add: quietOn_outcome)
  from assms(3) have q: "quietOn {''taskStarted'', ''taskCompleted''} ?w3"
    by (simp add: quietOn_mono)
  from assms(4) have k: "k < length (tasks (orders ?w3 r))" by simp
  from assms(5) have res: "\<forall>i<k. action (theTask ?w3 r i) = Resolves" by simp
  from assms(6) have rej: "action (theTask ?w3 r k) = Rejects v" by simp
  note tb = tryBlock_quiet_fail[OF q k res rej, of "busy a r"]
  have "frame r ?w3 ?w4" by (rule tryBlock_frame)
  then have fr: "listenersOf ?w4 = listenersOf w" "order_id (orders ?w4 r) = order_id (orders w r)"
    by (simp_all add: frame_def listenersOf_def fun_eq_iff)
  with assms(3) have qf: "quietOn {''orderFailed''} ?w4"
    by (simp add: quietOn_def)
  note cb = catchBlock_quiet[OF qf, of agentId "busy a r" r ?e]
  from executeOrder_eq[OF assms(1,2) os] tb(1)
  have eq: "executeOrder agentId r w =
      (fst (catchBlock agentId (busy a r) r ?e ?w4),
       finallyBlock agentId r (snd (catchBlock agentId (busy a r) r ?e ?w4)))"
    by simp
  from eq cb(1) show thr: "fst (executeOrder agentId r w) = Throw (TaskFailed (task_name (theTask w r k)) (describe v))" by simp
  from executeOrder_cleanup[OF assms(1,2) os] thr
  show "agents (snd (executeOrder agentId r w)) =
           (agents w)(agentId \<mapsto> a\<lparr>orderHistory := orderHistory a @ [r], currentOrder := None,
              agent_status := AgentError\<rparr>)"
    and "order_status (orders (snd (executeOrder agentId r w)) r) = OrderFailed"
    and "length (tasks (orders (snd (executeOrder agentId r w)) r)) = length (tasks (orders w r))"
    by (simp_all add: frame_def)
  from eq tb show "\<forall>i<k. task_status (theTask (snd (executeOrder agentId r w)) r i) = Completed"
    and "task_status (theTask (snd (executeOrder agentId r w)) r k) = Failed"
    and "error (theTask (snd (executeOrder agentId r w)) r k) = Some (describe v)"
    and "\<forall>j. k < j \<longrightarrow> theTask (snd (executeOrder agentId r w)) r j = theTask w r j"
    by simp_all
  from eq tb(2) cb(2) show "performed (snd (executeOrder agentId r w)) = performed w @ map (Pair r) [0..<Suc k]"
    by simp
  from eq tb(3) cb(3) fr show "map label (published (snd (executeOrder agentId r w))) =
           map label (published w) @ [(''orderStarted'', order_id (orders w r))]
           @ concat (map (taskEvents w r) [0..<Suc k])
           @ [(''orderFailed'', order_id (orders w r))]"
    by simp
qed

subsection \<open>The log of published events\<close>

lemma published_emit [simp]: "published (snd (emit ev p w)) = published w @ [(ev, p)]"
  by (simp add: emit_eq)

lemma prefix_executeTask: "prefix (published w) (published (snd (executeTask a r i w)))"
  by (simp add: executeTask_def Let_def newDate_def settle_def updTask_def updOrder_def emit_eq
      split: completion.splits action_outcome.splits)

lemma prefix_runTasks: "prefix (published w) (published (snd (runTasks a r is w)))"
proof (induction "is" arbitrary: w)
  case Nil
  show ?case by simp
next
  case (Cons i rest)
  let ?w1 = "snd (executeTask a r i w)"
  have "prefix (published w) (published ?w1)" by (rule prefix_executeTask)
  moreover have "prefix (published ?w1) (published (snd (runTasks a r rest ?w1)))" by (rule Cons.IH)
  ultimately have "prefix (published w) (published (snd (runTasks a r rest ?w1)))"
    by (rule prefix_order.trans)
  with \<open>prefix (published w) (published ?w1)\<close> show ?case
    by (cases "executeTask a r i w") (simp split: completion.splits)
qed

lemma prefix_tryBlock: "prefix (published w) (published (snd (tryBlock a r w)))"
proof -
  let ?w1 = "snd (runTasks a r [0..<length (tasks (orders w r))] w)"
  have p: "prefix (published w) (published ?w1)" by (rule prefix_runTasks)
  then have "prefix (published w) (published ?w1 @ [x])" for x
    by (rule prefix_order.trans) simp
  with p show ?thesis
    by (cases "runTasks a r [0..<length (tasks (orders w r))] w")
       (simp add: tryBlock_def Let_def updOrder_def split: completion.splits)
qed

lemma prefix_catchBlock: "prefix (published w) (published (snd (catchBlock agentId a r e w)))"
  by (simp add: catchBlock_def Let_def emit_eq setAgent_def updOrder_def split: completion.splits)

lemma catchBlock_kinds:
  "fst (catchBlock agentId a r e w) = Throw e \<or> (\<exists>v. fst (catchBlock agentId a r e w) = Throw (Callback v))"
proof -
  let ?w2 = "setAgent agentId (a\<lparr>agent_status := AgentError\<rparr>)
     (updOrder r (\<lambda>ord. ord\<lparr>order_status := OrderFailed\<rparr>) w)"
  from emit_result[of "''orderFailed''" "FailureData (a\<lparr>agent_status := AgentError\<rparr>) (orders ?w2 r) e" ?w2]
  show ?thesis
    by (cases "emit ''orderFailed'' (FailureData (a\<lparr>agent_status := AgentError\<rparr>) (orders ?w2 r) e) ?w2")
       (auto simp add: catchBlock_def Let_def split: completion.splits)
qed

text \<open>An accepted call publishes \<open>orderStarted\<close> first and never throws one of the two
  precondition errors.\<close>
lemma executeOrder_accepted:
  assumes "agents w agentId = Some a" "agent_status a \<noteq> Busy"
  shows "prefix (published w @ [(''orderStarted'', startPayload a r w)])
           (published (snd (executeOrder agentId r w)))"
    and "fst (executeOrder agentId r w) = Return () \<or>
         (\<exists>v. fst (executeOrder agentId r w) = Throw (Callback v)) \<or>
         (\<exists>n e. fst (executeOrder agentId r w) = Throw (TaskFailed n e))"
proof -
  let ?w3 = "startWorld agentId a r w"
  let ?w4 = "snd (tryBlock (busy a r) r ?w3)"
  have both: "prefix (published w @ [(''orderStarted'', startPayload a r w)])
           (published (snd (executeOrder agentId r w))) \<and>
     (fst (executeOrder agentId r w) = Return () \<or>
         (\<exists>v. fst (executeOrder agentId r w) = Throw (Callback v)) \<or>
         (\<exists>n e. fst (executeOrder agentId r w) = Throw (TaskFailed n e)))"
  proof (cases "outcome (listenersOf w ''orderStarted'') (startPayload a r w)")
    case (Throw e)
    then obtain v where "e = Callback v" using outcome_Throw by blast
    with Throw assms show ?thesis
      by (simp add: executeOrder_def Let_def emit_eq setAgent_def updOrder_def listenersOf_def
          startPayload_def)
  next
    case (Return u)
    then have "outcome (listenersOf w ''orderStarted'') (startPayload a r w) = Return ()" by simp
    note eq = executeOrder_eq[OF assms this]
    have p4: "prefix (published ?w3) (published ?w4)" by (rule prefix_tryBlock)
    show ?thesis
    proof (cases "fst (tryBlock (busy a r) r ?w3)")
      case Return
      with eq p4 show ?thesis by simp
    next
      case (Throw e)
      let ?w5 = "snd (catchBlock agentId (busy a r) r e ?w4)"
      have "prefix (published ?w4) (published ?w5)" by (rule prefix_catchBlock)
      with p4 have p5: "prefix (published ?w3) (published ?w5)" by (rule prefix_order.trans)
      from Throw tryBlock_result[of "busy a r" r ?w3]
      have "(\<exists>v. e = Callback v) \<or> (\<exists>n m. e = TaskFailed n m)" by auto
      with catchBlock_kinds[of agentId "busy a r" r e ?w4]
      have "(\<exists>v. fst (catchBlock agentId (busy a r) r e ?w4) = Throw (Callback v)) \<or>
         (\<exists>n m. fst (catchBlock agentId (busy a r) r e ?w4) = Throw (TaskFailed n m))"
        by auto
      with eq Throw p5 show ?thesis by simp
    qed
  qed
  from both show "prefix (published w @ [(''orderStarted'', startPayload a r w)])
           (published (snd (executeOrder agentId r w)))" by simp
  from both show "fst (executeOrder agentId r w) = Return () \<or>
         (\<exists>v. fst (executeOrder agentId r w) = Throw (Callback v)) \<or>
         (\<exists>n e. fst (executeOrder agentId r w) = Throw (TaskFailed n e))" by simp
qed

lemma executeOrder_prefix:
  "prefix (published w) (published (snd (executeOrder agentId r w)))"
proof (cases "agents w agentId")
  case None
  then show ?thesis by (simp add: executeOrder_def)
next
  case (Some a)
  show ?thesis
  proof (cases "agent_status a = Busy")
    case True
    with Some show ?thesis by (simp add: executeOrder_def)
  next
    case False
    from executeOrder_accepted(1)[OF Some False, of r] show ?thesis
      by (auto simp add: prefix_def)
  qed
qed

lemma new_labels:
  assumes "prefix (published w) (published w')"
    and "map label (published w') = map label (published w) @ ls"
  shows "map label (drop (length (published w)) (published w')) = ls"
proof -
  from assms(1) obtain new where n: "published w' = published w @ new" by (auto simp add: prefix_def)
  with assms(2) show ?thesis by simp
qed

lemma concat_taskEvents:
  "concat (map (taskEvents w r) [0..<length (tasks (orders w r))]) =
     concat (map (\<lambda>t. [(''taskStarted'', task_id t), (''taskCompleted'', task_id t)]) (tasks (orders w r)))"
proof -
  have "map (taskEvents w r) [0..<length (tasks (orders w r))] =
      map (\<lambda>t. [(''taskStarted'', task_id t), (''taskCompleted'', task_id t)])
        (map (nth (tasks (orders w r))) [0..<length (tasks (orders w r))])"
    by (simp add: taskEvents_def theTask_def)
  then show ?thesis by (simp only: map_nth)
qed

subsection \<open>The invariant of the agents\<close>

lemma busyIffCurrent_executeOrder:
  assumes "busyIffCurrent w"
  shows "busyIffCurrent (snd (executeOrder agentId r w))"
proof (cases "agents w agentId")
  case None
  with assms show ?thesis by (simp add: executeOrder_def)
next
  case (Some a)
  show ?thesis
  proof (cases "agent_status a = Busy")
    case True
    with Some assms show ?thesis by (simp add: executeOrder_def)
  next
    case False
    show ?thesis
    proof (cases "outcome (listenersOf w ''orderStarted'') (startPayload a r w)")
      case (Throw e)
      from executeOrder_aborted(2)[OF Some False Throw] assms show ?thesis
        by (auto simp add: busyIffCurrent_def split: if_splits)
    next
      case (Return u)
      then have "outcome (listenersOf w ''orderStarted'') (startPayload a r w) = Return ()" by simp
      from executeOrder_cleanup(1)[OF Some False this] assms show ?thesis
        by (auto simp add: busyIffCurrent_def split: if_splits)
    qed
  qed
qed

lemma busyIffCurrent_createAgent:
  assumes "busyIffCurrent w"
  shows "busyIffCurrent (snd (createAgent name uuid w))"
proof -
  let ?a = "\<lparr>agent_id = uuid, agent_name = name, agent_status = Idle,
                currentOrder = None, orderHistory = []\<rparr>"
  have "agents (snd (createAgent name uuid w)) = (agents w)(uuid \<mapsto> ?a)"
    by (cases "emit ''agentCreated'' (AgentData ?a) (setAgent uuid ?a w)")
       (auto simp add: createAgent_def Let_def emit_eq setAgent_def split: completion.splits)
  with assms show ?thesis by (auto simp add: busyIffCurrent_def)
qed

subsection \<open>The invariant of the tasks\<close>

lemma untouched_consistent: "untouched t \<Longrightarrow> consistent t"
  by (simp add: untouched_def consistent_def)

lemma consistent_startedTask: "untouched t \<Longrightarrow> consistent (startedTask d t)"
  by (simp add: untouched_def consistent_def startedTask_def)

lemma consistent_finishedTask: "untouched t \<Longrightarrow> consistent (finishedTask d t)"
  by (simp add: untouched_def consistent_def finishedTask_def split: action_outcome.splits)

lemma sound_emit:
  "sound n r w \<Longrightarrow> \<forall>t\<in>set (payloadTasks p). consistent t \<Longrightarrow> sound n r (snd (emit ev p w))"
  by (auto simp add: sound_def emit_eq)

lemma sound_setAgent [simp]: "sound n r (setAgent agentId a w) = sound n r w"
  by (simp add: sound_def setAgent_def)

lemma sound_status [simp]:
  "sound n r (updOrder r' (\<lambda>ord. ord\<lparr>order_status := s\<rparr>) w) = sound n r w"
  by (simp add: sound_def updOrder_def)

lemma sound_finallyBlock [simp]: "sound n r (finallyBlock agentId r' w) = sound n r w"
  by (simp add: sound_def)

lemma sound_putTask:
  assumes "sound n r w" "consistent t"
  shows "sound n r (putTask r i t w)"
proof -
  have "set ((tasks (orders w r))[i := t]) \<subseteq> insert t (set (tasks (orders w r)))"
    by (rule set_update_subset_insert)
  with assms show ?thesis
    by (auto simp add: sound_def putTask_def updOrder_def)
qed

lemma sound_logs:
  "sound n r w \<Longrightarrow> \<forall>e\<in>set es. \<forall>t\<in>set (payloadTasks (snd e)). consistent t \<Longrightarrow>
     sound n r (w\<lparr>clock := c, published := published w @ es, invoked := q\<rparr>)"
  "sound n r w \<Longrightarrow> \<forall>e\<in>set es. \<forall>t\<in>set (payloadTasks (snd e)). consistent t \<Longrightarrow>
     sound n r (w\<lparr>clock := c, published := published w @ es, invoked := q, performed := s\<rparr>)"
  by (auto simp add: sound_def)

lemma sound_executeTask:
  assumes "sound n r w" "i < length (tasks (orders w r))" "untouched (theTask w r i)"
  shows "sound n r (snd (executeTask a r i w))"
proof -
  let ?s = "startedTask (clock w) (theTask w r i)"
  let ?f = "finishedTask (clock w) (theTask w r i)"
  from assms(3) have c: "consistent ?s" "consistent ?f"
    by (simp_all add: consistent_startedTask consistent_finishedTask)
  from assms(1) c have "sound n r (putTask r i ?s w)" "sound n r (putTask r i ?f w)"
    by (simp_all add: sound_putTask)
  with c have
    "sound n r ((putTask r i ?s w)\<lparr>clock := k,
        published := published (putTask r i ?s w) @ [(''taskStarted'', TaskData a ?s)],
        invoked := q\<rparr>)"
    "sound n r ((putTask r i ?f w)\<lparr>clock := k,
        published := published (putTask r i ?f w) @
          [(''taskStarted'', TaskData a ?s), (''taskCompleted'', TaskData a ?f)],
        invoked := q, performed := s\<rparr>)" for k q s
    by (simp_all add: sound_logs)
  then show ?thesis using assms(2)
    by (simp add: executeTask_eq Let_def putTask_def updOrder_def split: completion.splits)
qed

lemma sound_runTasks:
  "sound n r w \<Longrightarrow> distinct is \<Longrightarrow>
   \<forall>i\<in>set is. i < length (tasks (orders w r)) \<and> untouched (theTask w r i) \<Longrightarrow>
   sound n r (snd (runTasks a r is w))"
proof (induction "is" arbitrary: w)
  case Nil
  then show ?case by simp
next
  case (Cons i rest)
  let ?w1 = "snd (executeTask a r i w)"
  from Cons.prems have i: "i < length (tasks (orders w r))" "untouched (theTask w r i)" by simp_all
  from Cons.prems(1) i have s1: "sound n r ?w1" by (rule sound_executeTask)
  have f: "frame r w ?w1" using i(1) by (rule executeTask_frame)
  have "\<forall>j\<in>set rest. j < length (tasks (orders ?w1 r)) \<and> untouched (theTask ?w1 r j)"
  proof
    fix j assume j: "j \<in> set rest"
    with Cons.prems(2) have "j \<noteq> i" by auto
    with i(1) have "theTask ?w1 r j = theTask w r j" by (simp add: executeTask_other)
    with j Cons.prems(3) f show "j < length (tasks (orders ?w1 r)) \<and> untouched (theTask ?w1 r j)"
      by (simp add: frame_def)
  qed
  with s1 Cons.prems(2) have "sound n r (snd (runTasks a r rest ?w1))"
    by (intro Cons.IH) simp_all
  with s1 show ?case
    by (cases "executeTask a r i w") (simp split: completion.splits)
qed

lemma sound_tryBlock:
  assumes "sound n r w" "\<forall>t\<in>set (tasks (orders w r)). untouched t"
  shows "sound n r (snd (tryBlock a r w))"
proof -
  let ?is = "[0..<length (tasks (orders w r))]"
  let ?w1 = "snd (runTasks a r ?is w)"
  let ?w2 = "updOrder r (\<lambda>ord. ord\<lparr>order_status := OrderCompleted\<rparr>) ?w1"
  from assms(2) have "\<forall>i\<in>set ?is. i < length (tasks (orders w r)) \<and> untouched (theTask w r i)"
    by (simp add: theTask_def)
  with assms(1) have s1: "sound n r ?w1" by (intro sound_runTasks) simp_all
  then have "sound n r ?w2" by simp
  moreover from s1 have "\<forall>t\<in>set (payloadTasks (OrderData a (orders ?w2 r))). consistent t"
    by (simp add: sound_def updOrder_def)
  ultimately have "sound n r (snd (emit ''orderCompleted'' (OrderData a (orders ?w2 r)) ?w2))"
    by (rule sound_emit)
  with s1 show ?thesis
    by (cases "runTasks a r ?is w") (simp add: tryBlock_def Let_def split: completion.splits)
qed

lemma sound_catchBlock:
  assumes "sound n r w"
  shows "sound n r (snd (catchBlock agentId a r e w))"
proof -
  let ?a1 = "a\<lparr>agent_status := AgentError\<rparr>"
  let ?w2 = "setAgent agentId ?a1 (updOrder r (\<lambda>ord. ord\<lparr>order_status := OrderFailed\<rparr>) w)"
  from assms have s2: "sound n r ?w2" by simp
  moreover from assms have "\<forall>t\<in>set (payloadTasks (FailureData ?a1 (orders ?w2 r) e)). consistent t"
    by (simp add: sound_def updOrder_def setAgent_def)
  ultimately have "sound n r (snd (emit ''orderFailed'' (FailureData ?a1 (orders ?w2 r) e) ?w2))"
    by (rule sound_emit)
  then show ?thesis
    by (cases "emit ''orderFailed'' (FailureData ?a1 (orders ?w2 r) e) ?w2")
       (simp add: catchBlock_def Let_def split: completion.splits)
qed

lemma sound_executeOrder:
  assumes "\<forall>t\<in>set (tasks (orders w r)). untouched t"
  shows "sound (length (published w)) r (snd (executeOrder agentId r w))"
proof -
  let ?n = "length (published w)"
  from assms have s0: "sound ?n r w" by (simp add: sound_def untouched_consistent)
  show ?thesis
  proof (cases "agents w agentId")
    case None
    with s0 show ?thesis by (simp add: executeOrder_def)
  next
    case (Some a)
    show ?thesis
    proof (cases "agent_status a = Busy")
      case True
      with Some s0 show ?thesis by (simp add: executeOrder_def)
    next
      case False
      let ?w2 = "updOrder r (\<lambda>ord. ord\<lparr>order_status := InProgress\<rparr>) (setAgent agentId (busy a r) w)"
      let ?w3 = "startWorld agentId a r w"
      let ?w4 = "snd (tryBlock (busy a r) r ?w3)"
      from s0 have "sound ?n r ?w2" by simp
      moreover from assms have "\<forall>t\<in>set (payloadTasks (startPayload a r w)). consistent t"
        by (simp add: startPayload_def untouched_consistent)
      ultimately have s3: "sound ?n r ?w3" unfolding startWorld_def by (rule sound_emit)
      show ?thesis
      proof (cases "outcome (listenersOf w ''orderStarted'') (startPayload a r w)")
        case (Throw e)
        have "snd (executeOrder agentId r w) = ?w3"
          using Some False Throw
          by (simp add: executeOrder_def Let_def emit_eq setAgent_def updOrder_def listenersOf_def
              startPayload_def startWorld_def busy_def)
        with s3 show ?thesis by simp
      next
        case (Return u)
        then have "outcome (listenersOf w ''orderStarted'') (startPayload a r w) = Return ()" by simp
        note eq = executeOrder_eq[OF Some False this]
        from assms have "\<forall>t\<in>set (tasks (orders ?w3 r)). untouched t" by simp
        with s3 have s4: "sound ?n r ?w4" by (rule sound_tryBlock)
        show ?thesis
        proof (cases "fst (tryBlock (busy a r) r ?w3)")
          case Return
          with eq s4 show ?thesis by simp
        next
          case (Throw e)
          from s4 have "sound ?n r (snd (catchBlock agentId (busy a r) r e ?w4))"
            by (rule sound_catchBlock)
          with eq Throw show ?thesis by simp
        qed
      qed
    qed
  qed
qed

subsection \<open>Counting the history\<close>

lemma runCalls_Cons:
  "fst (runCalls (c # cs) w) =
     fst (executeOrder (fst c) (snd c) w) # fst (runCalls cs (snd (executeOrder (fst c) (snd c) w)))"
  "snd (runCalls (c # cs) w) = snd (runCalls cs (snd (executeOrder (fst c) (snd c) w)))"
  by (simp_all split: prod.splits)

text \<open>Whatever a call does, rejected or not, it leaves the listeners, the other agents,
  the other orders and the number of tasks of every order as they were.\<close>
lemma executeOrder_others:
  "eventListeners (snd (executeOrder agentId r w)) = eventListeners w \<and>
   (\<forall>i. i \<noteq> agentId \<longrightarrow> agents (snd (executeOrder agentId r w)) i = agents w i) \<and>
   (\<forall>r'. r' \<noteq> r \<longrightarrow> orders (snd (executeOrder agentId r w)) r' = orders w r') \<and>
   (\<forall>r'. length (tasks (orders (snd (executeOrder agentId r w)) r')) = length (tasks (orders w r')))"
proof (cases "agents w agentId")
  case None
  then show ?thesis by (simp add: executeOrder_def)
next
  case (Some a)
  show ?thesis
  proof (cases "agent_status a = Busy")
    case True
    with Some show ?thesis by (simp add: executeOrder_def)
  next
    case False
    show ?thesis
    proof (cases "outcome (listenersOf w ''orderStarted'') (startPayload a r w)")
      case (Throw e)
      have "snd (executeOrder agentId r w) = startWorld agentId a r w"
        using Some False Throw
        by (simp add: executeOrder_def Let_def emit_eq setAgent_def updOrder_def listenersOf_def
            startPayload_def startWorld_def busy_def)
      then show ?thesis
        by (simp add: startWorld_def emit_eq updOrder_def setAgent_def)
    next
      case (Return u)
      then have os: "outcome (listenersOf w ''orderStarted'') (startPayload a r w) = Return ()"
        by simp
      note cl = executeOrder_cleanup[OF Some False os]
      from cl(3) have len: "length (tasks (orders (snd (executeOrder agentId r w)) r')) =
          length (tasks (orders w r'))" for r'
        by (cases "r' = r") (simp_all add: frame_def)
      from cl(1,3) len show ?thesis by (simp add: frame_def)
    qed
  qed
qed

lemma runCalls_history:
  "agents w agentId = Some a \<Longrightarrow> agent_status a \<noteq> Busy \<Longrightarrow> quietOn {''orderStarted''} w \<Longrightarrow>
   distinct (ordersOf agentId cs) \<Longrightarrow>
   \<forall>c\<in>set cs. fst c \<noteq> agentId \<longrightarrow> snd c \<notin> set (ordersOf agentId cs) \<Longrightarrow>
   (\<exists>a'. agents (snd (runCalls cs w)) agentId = Some a' \<and>
          orderHistory a' = orderHistory a @ ordersOf agentId cs) \<and>
   map (\<lambda>r. order_status (orders (snd (runCalls cs w)) r)) (ordersOf agentId cs) =
     map verdict (resultsOf agentId cs (fst (runCalls cs w))) \<and>
   (\<forall>r. r \<notin> snd ` set cs \<longrightarrow> orders (snd (runCalls cs w)) r = orders w r) \<and>
   (\<forall>r. length (tasks (orders (snd (runCalls cs w)) r)) = length (tasks (orders w r)))"
proof (induction cs arbitrary: w a)
  case Nil
  then show ?case by (simp add: ordersOf_def resultsOf_def)
next
  case (Cons c cs)
  let ?c = "fst (executeOrder (fst c) (snd c) w)"
  let ?w1 = "snd (executeOrder (fst c) (snd c) w)"
  let ?w' = "snd (runCalls cs ?w1)"
  note ot = executeOrder_others[of "fst c" "snd c" w]
  from ot Cons.prems(3) have q: "quietOn {''orderStarted''} ?w1"
    by (simp add: quietOn_def listenersOf_def)
  show ?case
  proof (cases "fst c = agentId")
    case True
    let ?a1 = "a\<lparr>orderHistory := orderHistory a @ [snd c], currentOrder := None,
                agent_status := (if ?c = Return () then Idle else AgentError)\<rparr>"
    from Cons.prems(3)
    have os: "outcome (listenersOf w ''orderStarted'') (startPayload a (snd c) w) = Return ()"
      by (simp add: quietOn_outcome)
    from Cons.prems(1) True have ag: "agents w (fst c) = Some a" by simp
    note cl = executeOrder_cleanup[OF ag Cons.prems(2) os]
    from cl(1) True have a1: "agents ?w1 agentId = Some ?a1" by simp
    have nb: "agent_status ?a1 \<noteq> Busy" by simp
    from True have oo: "ordersOf agentId (c # cs) = snd c # ordersOf agentId cs"
      by (simp add: ordersOf_def)
    from Cons.prems(4) oo have d: "distinct (ordersOf agentId cs)"
      and nr: "snd c \<notin> set (ordersOf agentId cs)" by simp_all
    from Cons.prems(5) oo have ex: "\<forall>x\<in>set cs. fst x \<noteq> agentId \<longrightarrow> snd x \<notin> set (ordersOf agentId cs)"
      and ex1: "\<forall>x\<in>set cs. fst x \<noteq> agentId \<longrightarrow> snd x \<noteq> snd c"
      by auto
    have "snd c \<notin> snd ` set cs"
    proof
      assume "snd c \<in> snd ` set cs"
      then obtain x where x: "x \<in> set cs" "snd x = snd c" by auto
      with ex1 have "fst x = agentId" by auto
      with x have "x \<in> set (filter (\<lambda>c. fst c = agentId) cs)" by simp
      then have "snd x \<in> set (ordersOf agentId cs)" unfolding ordersOf_def set_map by (rule imageI)
      with x have "snd c \<in> set (ordersOf agentId cs)" by simp
      with nr show False by simp
    qed
    note ih = Cons.IH[OF a1 nb q d ex]
    with \<open>snd c \<notin> snd ` set cs\<close> have keep: "orders ?w' (snd c) = orders ?w1 (snd c)" by simp
    from cl(2) keep have st: "order_status (orders ?w' (snd c)) = verdict ?c"
      by (simp add: verdict_def)
    from True have rr: "resultsOf agentId (c # cs) (fst (runCalls (c # cs) w)) =
        ?c # resultsOf agentId cs (fst (runCalls cs ?w1))"
      by (simp add: resultsOf_def runCalls_Cons del: runCalls.simps)
    from ih obtain a' where a': "agents ?w' agentId = Some a'"
      "orderHistory a' = orderHistory ?a1 @ ordersOf agentId cs" by blast
    then have "orderHistory a' = orderHistory a @ snd c # ordersOf agentId cs" by simp
    with a' ih st ot oo rr show ?thesis
      by (simp add: runCalls_Cons del: runCalls.simps)
  next
    case False
    from ot False Cons.prems(1) have a1: "agents ?w1 agentId = Some a" by simp
    from False have oo: "ordersOf agentId (c # cs) = ordersOf agentId cs"
      by (simp add: ordersOf_def)
    from Cons.prems(4) oo have d: "distinct (ordersOf agentId cs)" by simp
    from Cons.prems(5) oo have ex: "\<forall>x\<in>set cs. fst x \<noteq> agentId \<longrightarrow> snd x \<notin> set (ordersOf agentId cs)"
      and nr: "snd c \<notin> set (ordersOf agentId cs)"
      using False by auto
    note ih = Cons.IH[OF a1 Cons.prems(2) q d ex]
    from False have rr: "resultsOf agentId (c # cs) (fst (runCalls (c # cs) w)) =
        resultsOf agentId cs (fst (runCalls cs ?w1))"
      by (simp add: resultsOf_def runCalls_Cons del: runCalls.simps)
    from ih ot oo rr show ?thesis
      by (simp add: runCalls_Cons del: runCalls.simps)
  qed
qed

lemma count_verdict:
  "length (filter ((\<lambda>s. s = OrderCompleted) \<circ> verdict) cs) = length (filter (\<lambda>c. c = Return ()) cs)"
  "length (filter ((\<lambda>s. s = OrderFailed) \<circ> verdict) cs) = length (filter (\<lambda>c. c \<noteq> Return ()) cs)"
  by (induction cs) (simp_all add: verdict_def)

lemma foldl_sum: "foldl (\<lambda>sum r. sum + f r) n rs = n + sum_list (map f rs)"
  by (induction rs arbitrary: n) (simp_all add: add.assoc)

lemma getStats_eq:
  "agents w agentId = Some a \<Longrightarrow>
   getStats agentId w =
     (Return \<lparr>totalOrders = length (orderHistory a),
        completedOrders = length (filter (\<lambda>s. s = OrderCompleted)
           (map (\<lambda>r. order_status (orders w r)) (orderHistory a))),
        failedOrders = length (filter (\<lambda>s. s = OrderFailed)
           (map (\<lambda>r. order_status (orders w r)) (orderHistory a))),
        totalTasks = sum_list (map (\<lambda>r. length (tasks (orders w r))) (orderHistory a))\<rparr>, w)"
  by (simp add: getStats_def foldl_sum filter_map comp_def)

subsection \<open>Evaluation of the example states\<close>

lemmas eval_defs = executeOrder_def tryBlock_def catchBlock_def finallyBlock_def executeTask_def
  emit_def settle_def newDate_def setAgent_def updOrder_def updTask_def theTask_def on_def
  Let_def shown_def agentA_def mkTask_def mkOrder_def world0_def thrower_def silent_def

lemmas world_defs = quietWorld_def world0_def on_def agentA_def mkOrder_def mkTask_def
  threeTasks_def twoTasks_def oneFailing_def oneTask_def silent_def thrower_def boom_def

lemma quietWorld_quiet: "quietOn evs (quietWorld ord)"
  by (auto simp add: quietOn_def listenersOf_def quietWorld_def world0_def on_def silent_def
      split: if_splits)

section \<open>The claims\<close>

subsection \<open>C1: listeners that throw\<close>

text \<open>
  Against claim C1: a listener that throws keeps the listener registered after it from
  being called, and what it threw reaches the caller of \<^verbatim>\<open>executeOrder\<close>, after
  the engine has marked the order as failed without calling the task's action.
\<close>
theorem listener_fault_counterexample:
  "fst (executeOrder ''a1'' 0 worldC1) = Throw (Callback (ErrorObject ''listener failed'')) \<and>
   invoked (snd (executeOrder ''a1'' 0 worldC1)) = [(''taskStarted'', 0)] \<and>
   performed (snd (executeOrder ''a1'' 0 worldC1)) = [] \<and>
   order_status (orders (snd (executeOrder ''a1'' 0 worldC1)) 0) = OrderFailed"
  by (simp add: worldC1_def eval_defs)

text \<open>
  Claim C1, amended: when an event is published, its listeners are called in the order of
  their registration, up to and including the first one that throws; the listeners after
  it are not called, and \<^verbatim>\<open>emit\<close> throws what that listener threw. When no
  listener throws, all of them are called and \<^verbatim>\<open>emit\<close> returns.
\<close>
theorem emit_until_first_fault:
  "(j < length (listenersOf w event) \<and> (listenersOf w event ! j) data = Some v \<and>
        (\<forall>i<j. (listenersOf w event ! i) data = None) \<longrightarrow>
      fst (emit event data w) = Throw (Callback v) \<and>
      invoked (snd (emit event data w)) = invoked w @ map (Pair event) [0..<Suc j]) \<and>
   ((\<forall>h\<in>set (listenersOf w event). h data = None) \<longrightarrow>
      fst (emit event data w) = Return () \<and>
      invoked (snd (emit event data w)) =
        invoked w @ map (Pair event) [0..<length (listenersOf w event)])"
  by (auto simp add: emit_eq outcome_quiet called_quiet dest: outcome_first)

theorem emit_until_first_fault_witness:
  "fst (emit ''taskStarted'' (AgentData agentA) worldC1) = Throw (Callback (ErrorObject ''listener failed'')) \<and>
   invoked (snd (emit ''taskStarted'' (AgentData agentA) worldC1)) = [(''taskStarted'', 0)] \<and>
   fst (emit ''orderStarted'' (AgentData agentA) worldC1) = Return () \<and>
   invoked (snd (emit ''orderStarted'' (AgentData agentA) worldC1)) = []"
  using emit_until_first_fault[of 0 worldC1 "''taskStarted''" "AgentData agentA" "ErrorObject ''listener failed''"]
    emit_until_first_fault[of 0 worldC1 "''orderStarted''" "AgentData agentA" "ErrorObject ''listener failed''"]
  by (simp add: worldC1_def world0_def on_def listenersOf_def thrower_def silent_def)

subsection \<open>C2: an order whose task fails\<close>

text \<open>
  Against claim C2: the only task of the order fails with the message \<open>boom\<close>, and a
  listener of \<open>taskCompleted\<close> throws; the caller receives what the listener threw,
  whose message does not contain \<open>boom\<close>.
\<close>
theorem failing_task_counterexample:
  "fst (executeOrder ''a1'' 0 (on ''taskCompleted'' thrower (world0 oneFailing))) =
     Throw (Callback (ErrorObject ''listener failed'')) \<and>
   error (theTask (snd (executeOrder ''a1'' 0 (on ''taskCompleted'' thrower (world0 oneFailing)))) 0 0) =
     Some ''boom'' \<and>
   \<not> sublist ''boom'' (message (Callback (ErrorObject ''listener failed'')))"
  by (simp add: eval_defs world_defs sublist_code)

text \<open>
  Claim C2, amended by the condition that no listener of \<open>orderStarted\<close>,
  \<open>taskStarted\<close>, \<open>taskCompleted\<close> or \<open>orderFailed\<close> throws. The agent is
  registered and not busy, the task at position \<open>k\<close> (counted from 0) is the first
  whose action fails, with the value \<open>v\<close>. Then \<^verbatim>\<open>executeOrder\<close> throws the error
  \<open>Task <name> failed: <message of v>\<close>, whose message contains the error recorded in
  the task; the tasks before \<open>k\<close> are completed, the task \<open>k\<close> is failed, the tasks
  after \<open>k\<close> are what they were before the call (pending if they were) and their
  actions were not called; the order is failed, the agent is in error with no current
  order, and the order has been appended once to its history.
\<close>
theorem failing_task:
  assumes "agents w agentId = Some a" and "agent_status a \<noteq> Busy"
    and "quietOn {''orderStarted'', ''taskStarted'', ''taskCompleted'', ''orderFailed''} w"
    and "k < length (tasks (orders w r))"
    and "\<forall>i<k. action (theTask w r i) = Resolves"
    and "action (theTask w r k) = Rejects v"
  shows "fst (executeOrder agentId r w) =
           Throw (TaskFailed (task_name (theTask w r k)) (describe v)) \<and>
         sublist (describe v) (message (TaskFailed (task_name (theTask w r k)) (describe v))) \<and>
         error (theTask (snd (executeOrder agentId r w)) r k) = Some (describe v) \<and>
         task_status (theTask (snd (executeOrder agentId r w)) r k) = Failed \<and>
         (\<forall>i<k. task_status (theTask (snd (executeOrder agentId r w)) r i) = Completed) \<and>
         (\<forall>j. k < j \<longrightarrow> theTask (snd (executeOrder agentId r w)) r j = theTask w r j) \<and>
         performed (snd (executeOrder agentId r w)) = performed w @ map (Pair r) [0..<Suc k] \<and>
         length (tasks (orders (snd (executeOrder agentId r w)) r)) = length (tasks (orders w r)) \<and>
         order_status (orders (snd (executeOrder agentId r w)) r) = OrderFailed \<and>
         agents (snd (executeOrder agentId r w)) agentId =
           Some (a\<lparr>orderHistory := orderHistory a @ [r], currentOrder := None,
                   agent_status := AgentError\<rparr>)"
proof -
  have "sublist (describe v) (''Task '' @ task_name (theTask w r k) @ '' failed: '' @ describe v)"
    by (metis append.assoc sublist_appendI append_Nil2)
  then have "sublist (describe v) (message (TaskFailed (task_name (theTask w r k)) (describe v)))"
    by simp
  with executeOrder_quiet_fail[OF assms] show ?thesis by simp
qed

theorem failing_task_witness:
  "fst (executeOrder ''a1'' 0 (quietWorld threeTasks)) = Throw (TaskFailed ''t2'' ''boom'') \<and>
   sublist ''boom'' (message (TaskFailed ''t2'' ''boom'')) \<and>
   error (theTask (snd (executeOrder ''a1'' 0 (quietWorld threeTasks))) 0 1) = Some ''boom'' \<and>
   task_status (theTask (snd (executeOrder ''a1'' 0 (quietWorld threeTasks))) 0 1) = Failed \<and>
   task_status (theTask (snd (executeOrder ''a1'' 0 (quietWorld threeTasks))) 0 0) = Completed \<and>
   theTask (snd (executeOrder ''a1'' 0 (quietWorld threeTasks))) 0 2 = mkTask ''t3'' Resolves \<and>
   performed (snd (executeOrder ''a1'' 0 (quietWorld threeTasks))) = [(0, 0), (0, 1)] \<and>
   order_status (orders (snd (executeOrder ''a1'' 0 (quietWorld threeTasks))) 0) = OrderFailed \<and>
   agents (snd (executeOrder ''a1'' 0 (quietWorld threeTasks))) ''a1'' =
     Some (agentA\<lparr>orderHistory := [0], currentOrder := None, agent_status := AgentError\<rparr>)"
proof -
  have h: "agents (quietWorld threeTasks) ''a1'' = Some agentA" "agent_status agentA \<noteq> Busy"
    "(1::nat) < length (tasks (orders (quietWorld threeTasks) 0))"
    "\<forall>i<1. action (theTask (quietWorld threeTasks) 0 i) = Resolves"
    "action (theTask (quietWorld threeTasks) 0 1) = Rejects boom"
    "theTask (quietWorld threeTasks) 0 2 = mkTask ''t3'' Resolves"
    "task_name (theTask (quietWorld threeTasks) 0 1) = ''t2''"
    "performed (quietWorld threeTasks) = []" "orderHistory agentA = []"
    by (simp_all add: world_defs theTask_def)
  have u: "[0..<Suc 1] = [0, 1]" by (simp add: upt_rec)
  from failing_task[OF h(1,2) quietWorld_quiet h(3,4,5)] h(6,7,8,9) u show ?thesis
    by (simp add: boom_def)
qed

subsection \<open>C3: the cleanup\<close>

text \<open>
  Claim C3, where the code departs from it: a listener of \<open>orderStarted\<close> throws. The
  call is past the two precondition checks, it throws what the listener threw, and the
  cleanup has not run: the agent is left busy with the order as its current order and an
  empty history, and every later call for this agent is rejected as busy.
\<close>
theorem cleanup_skipped:
  "fst (executeOrder ''a1'' 0 (on ''orderStarted'' thrower (world0 oneTask))) =
     Throw (Callback (ErrorObject ''listener failed'')) \<and>
   agents (snd (executeOrder ''a1'' 0 (on ''orderStarted'' thrower (world0 oneTask)))) ''a1'' =
     Some (agentA\<lparr>currentOrder := Some 0, agent_status := Busy\<rparr>) \<and>
   fst (executeOrder ''a1'' 0 (snd (executeOrder ''a1'' 0 (on ''orderStarted'' thrower (world0 oneTask))))) =
     Throw (AgentBusy ''A'')"
  by (simp add: eval_defs world_defs)

subsection \<open>C4: the two precondition errors\<close>

text \<open>
  Claim C4. An unknown identifier is rejected with the not-found error and a busy agent
  with the busy error; in both cases the state after the call is the state before it, so
  that the agent, the order and the log of published events are untouched. Conversely the
  not-found error is thrown only for an unknown identifier, and the busy error only for a
  busy agent.
\<close>
theorem preconditions:
  "(agents w agentId = None \<longrightarrow> executeOrder agentId r w = (Throw (AgentNotFound agentId), w)) \<and>
   (agents w agentId = Some a \<and> agent_status a = Busy \<longrightarrow>
      executeOrder agentId r w = (Throw (AgentBusy (agent_name a)), w)) \<and>
   ((\<exists>n. fst (executeOrder agentId r w) = Throw (AgentNotFound n)) \<longrightarrow> agents w agentId = None) \<and>
   ((\<exists>n. fst (executeOrder agentId r w) = Throw (AgentBusy n)) \<longrightarrow>
      (\<exists>b. agents w agentId = Some b \<and> agent_status b = Busy))"
proof (cases "agents w agentId")
  case None
  then show ?thesis by (simp add: executeOrder_def)
next
  case (Some b)
  show ?thesis
  proof (cases "agent_status b = Busy")
    case True
    with Some show ?thesis by (simp add: executeOrder_def)
  next
    case False
    from executeOrder_accepted(2)[OF Some False, of r] Some False show ?thesis by auto
  qed
qed

theorem preconditions_witness:
  "executeOrder ''zz'' 0 busyWorld = (Throw (AgentNotFound ''zz''), busyWorld) \<and>
   executeOrder ''a1'' 0 busyWorld = (Throw (AgentBusy ''A''), busyWorld) \<and>
   published (snd (executeOrder ''a1'' 0 busyWorld)) = published busyWorld \<and>
   fst (executeOrder ''a1'' 0 (world0 oneTask)) \<noteq> Throw (AgentBusy ''A'') \<and>
   fst (executeOrder ''a1'' 0 (world0 oneTask)) \<noteq> Throw (AgentNotFound ''a1'')"
proof -
  have h: "agents busyWorld ''zz'' = None" "agents busyWorld ''a1'' = Some (busy agentA 3)"
    "agent_status (busy agentA 3) = Busy" "agent_name (busy agentA 3) = ''A''"
    "agents (world0 oneTask) ''a1'' = Some agentA" "agent_status agentA \<noteq> Busy"
    by (simp_all add: busyWorld_def world_defs busy_def)
  from preconditions[of busyWorld "''zz''" 0 "busy agentA 3"]
    preconditions[of busyWorld "''a1''" 0 "busy agentA 3"]
    preconditions[of "world0 oneTask" "''a1''" 0 agentA] h
  show ?thesis by auto
qed

subsection \<open>C5: busy if and only if an order is current\<close>

text \<open>
  Claim C5. In every state that the operations of the manager reach from a new manager,
  and so before every call of \<^verbatim>\<open>executeOrder\<close> and after it has returned or thrown
  (rejected, succeeded, failed, or stopped by a listener), an agent is busy if and only if
  its current order is set.
\<close>
theorem busy_iff_current_order:
  "reachable w \<Longrightarrow> busyIffCurrent w"
proof (induction rule: reachable.induct)
  case (new w)
  then show ?case by (simp add: busyIffCurrent_def)
next
  case (create w name uuid)
  then show ?case by (simp add: busyIffCurrent_createAgent)
next
  case (listen w event callback)
  then show ?case by (simp add: busyIffCurrent_def on_def Let_def)
next
  case (store w os)
  then show ?case by (simp add: busyIffCurrent_def)
next
  case (execute w agentId r)
  then show ?case by (simp add: busyIffCurrent_executeOrder)
qed

theorem busy_iff_current_order_witness:
  "busyIffCurrent (snd (executeOrder ''a1'' 0
      (on ''orderStarted'' thrower (snd (createAgent ''A'' ''a1'' emptyWorld))))) \<and>
   busyIffCurrent (snd (executeOrder ''a1'' 0 (snd (createAgent ''A'' ''a1'' emptyWorld)))) \<and>
   map_option agent_status (agents (snd (executeOrder ''a1'' 0
      (on ''orderStarted'' thrower (snd (createAgent ''A'' ''a1'' emptyWorld))))) ''a1'') = Some Busy \<and>
   map_option agent_status (agents (snd (executeOrder ''a1'' 0
      (snd (createAgent ''A'' ''a1'' emptyWorld)))) ''a1'') = Some AgentError"
proof -
  have e: "reachable emptyWorld" by (rule reachable.new) (simp add: emptyWorld_def)
  then have c: "reachable (snd (createAgent ''A'' ''a1'' emptyWorld))" by (rule reachable.create)
  then have "reachable (on ''orderStarted'' thrower (snd (createAgent ''A'' ''a1'' emptyWorld)))"
    by (rule reachable.listen)
  then have 1: "reachable (snd (executeOrder ''a1'' 0
      (on ''orderStarted'' thrower (snd (createAgent ''A'' ''a1'' emptyWorld)))))"
    by (rule reachable.execute)
  from c have 2: "reachable (snd (executeOrder ''a1'' 0 (snd (createAgent ''A'' ''a1'' emptyWorld))))"
    by (rule reachable.execute)
  have 3: "map_option agent_status (agents (snd (executeOrder ''a1'' 0
      (on ''orderStarted'' thrower (snd (createAgent ''A'' ''a1'' emptyWorld))))) ''a1'') = Some Busy"
    "map_option agent_status (agents (snd (executeOrder ''a1'' 0
      (snd (createAgent ''A'' ''a1'' emptyWorld)))) ''a1'') = Some AgentError"
    by (simp_all add: eval_defs world_defs emptyWorld_def createAgent_def)
  from busy_iff_current_order[OF 1] busy_iff_current_order[OF 2] 3 show ?thesis by simp
qed

subsection \<open>C6: an order whose tasks all succeed\<close>

text \<open>
  Against claim C6: (1) the only task of the order succeeds and a listener of
  \<open>orderCompleted\<close> throws: the order ends failed and the agent in error; (2) with no
  listener at all, an order that is run a second time by the same agent is twice in the
  history.
\<close>
theorem successful_order_counterexample:
  "order_status (orders (snd (executeOrder ''a1'' 0 (on ''orderCompleted'' thrower (world0 oneTask)))) 0)
     = OrderFailed \<and>
   map_option agent_status
     (agents (snd (executeOrder ''a1'' 0 (on ''orderCompleted'' thrower (world0 oneTask)))) ''a1'')
     = Some AgentError \<and>
   fst (executeOrder ''a1'' 0 (snd (executeOrder ''a1'' 0 (world0 oneTask)))) = Return () \<and>
   map_option orderHistory
     (agents (snd (executeOrder ''a1'' 0 (snd (executeOrder ''a1'' 0 (world0 oneTask))))) ''a1'')
     = Some [0, 0]"
  by (simp add: eval_defs world_defs)

text \<open>
  Claim C6, amended by the condition that no listener of \<open>orderStarted\<close>,
  \<open>taskStarted\<close>, \<open>taskCompleted\<close> or \<open>orderCompleted\<close> throws, and with the
  history stated as an append: for an order whose actions all succeed, run by a registered
  idle agent, \<^verbatim>\<open>executeOrder\<close> returns; the order is completed, it has the same number
  of tasks and all are completed, the agent is idle, and its history is the history before
  the call followed by the order.
\<close>
theorem successful_order:
  assumes "agents w agentId = Some a" and "agent_status a = Idle"
    and "quietOn {''orderStarted'', ''taskStarted'', ''taskCompleted'', ''orderCompleted''} w"
    and "\<forall>t\<in>set (tasks (orders w r)). action t = Resolves"
  shows "fst (executeOrder agentId r w) = Return () \<and>
         order_status (orders (snd (executeOrder agentId r w)) r) = OrderCompleted \<and>
         length (tasks (orders (snd (executeOrder agentId r w)) r)) = length (tasks (orders w r)) \<and>
         (\<forall>t\<in>set (tasks (orders (snd (executeOrder agentId r w)) r)). task_status t = Completed) \<and>
         agents (snd (executeOrder agentId r w)) agentId =
           Some (a\<lparr>orderHistory := orderHistory a @ [r], currentOrder := None,
                   agent_status := Idle\<rparr>)"
proof -
  from assms(2) have nb: "agent_status a \<noteq> Busy" by simp
  from executeOrder_quiet_success[OF assms(1) nb assms(3,4)] show ?thesis by simp
qed

theorem successful_order_witness:
  "fst (executeOrder ''a1'' 0 (quietWorld twoTasks)) = Return () \<and>
   order_status (orders (snd (executeOrder ''a1'' 0 (quietWorld twoTasks))) 0) = OrderCompleted \<and>
   map task_status (tasks (orders (snd (executeOrder ''a1'' 0 (quietWorld twoTasks))) 0)) =
     [Completed, Completed] \<and>
   agents (snd (executeOrder ''a1'' 0 (quietWorld twoTasks))) ''a1'' =
     Some (agentA\<lparr>orderHistory := [0], currentOrder := None, agent_status := Idle\<rparr>)"
proof -
  have h: "agents (quietWorld twoTasks) ''a1'' = Some agentA" "agent_status agentA = Idle"
    "\<forall>t\<in>set (tasks (orders (quietWorld twoTasks) 0)). action t = Resolves"
    "length (tasks (orders (quietWorld twoTasks) 0)) = 2" "orderHistory agentA = []"
    by (simp_all add: world_defs)
  note t = successful_order[OF h(1,2) quietWorld_quiet h(3)]
  let ?ts = "tasks (orders (snd (executeOrder ''a1'' 0 (quietWorld twoTasks))) 0)"
  from t h(4) have "length ?ts = Suc (Suc 0)" by simp
  then obtain x y where "?ts = [x, y]" by (auto simp add: length_Suc_conv)
  with t have "map task_status ?ts = [Completed, Completed]" by simp
  with t h(5) show ?thesis by simp
qed

subsection \<open>C7: the events of a successful order\<close>

text \<open>
  Against claim C7: the only task of the order succeeds and a listener of
  \<open>taskCompleted\<close> throws: \<open>orderFailed\<close> is published and \<open>orderCompleted\<close> is
  not.
\<close>
theorem event_sequence_counterexample:
  "map label (published (snd (executeOrder ''a1'' 0 (on ''taskCompleted'' thrower (world0 oneTask))))) =
     [(''orderStarted'', ''o1''), (''taskStarted'', ''t1''), (''taskCompleted'', ''t1''),
      (''orderFailed'', ''o1'')]"
  by (simp add: eval_defs world_defs label_def)

text \<open>
  Claim C7, amended by the condition that no listener of \<open>orderStarted\<close>,
  \<open>taskStarted\<close>, \<open>taskCompleted\<close> or \<open>orderCompleted\<close> throws: for an order
  whose actions all succeed, run by a registered agent that is not busy, the events
  published by the call are, each with the identifier of its order or task, one
  \<open>orderStarted\<close>, then \<open>taskStarted\<close> and \<open>taskCompleted\<close> for each task in the
  order of the sequence, then one \<open>orderCompleted\<close>, and no other.
\<close>
theorem event_sequence:
  assumes "agents w agentId = Some a" and "agent_status a \<noteq> Busy"
    and "quietOn {''orderStarted'', ''taskStarted'', ''taskCompleted'', ''orderCompleted''} w"
    and "\<forall>t\<in>set (tasks (orders w r)). action t = Resolves"
  shows "map label (drop (length (published w)) (published (snd (executeOrder agentId r w)))) =
           [(''orderStarted'', order_id (orders w r))] @
           concat (map (\<lambda>t. [(''taskStarted'', task_id t), (''taskCompleted'', task_id t)])
                    (tasks (orders w r))) @
           [(''orderCompleted'', order_id (orders w r))]"
proof -
  have "prefix (published w) (published (snd (executeOrder agentId r w)))"
    by (rule executeOrder_prefix)
  from new_labels[OF this executeOrder_quiet_success(6)[OF assms]]
  show ?thesis by (simp only: concat_taskEvents)
qed

theorem event_sequence_witness:
  "map label (drop (length (published (quietWorld twoTasks)))
      (published (snd (executeOrder ''a1'' 0 (quietWorld twoTasks))))) =
     [(''orderStarted'', ''o2''), (''taskStarted'', ''t1''), (''taskCompleted'', ''t1''),
      (''taskStarted'', ''t2''), (''taskCompleted'', ''t2''), (''orderCompleted'', ''o2'')]"
proof -
  have h: "agents (quietWorld twoTasks) ''a1'' = Some agentA" "agent_status agentA \<noteq> Busy"
    "\<forall>t\<in>set (tasks (orders (quietWorld twoTasks) 0)). action t = Resolves"
    "tasks (orders (quietWorld twoTasks) 0) = [mkTask ''t1'' Resolves, mkTask ''t2'' Resolves]"
    "order_id (orders (quietWorld twoTasks) 0) = ''o2''"
    by (simp_all add: world_defs)
  from event_sequence[OF h(1,2) quietWorld_quiet h(3)] h(4,5) show ?thesis
    by (simp add: mkTask_def)
qed

subsection \<open>C8: the fields of a task\<close>

text \<open>
  Against claim C8: \<^verbatim>\<open>createOrder\<close> copies every field of a task specification, so
  a specification that carries a result gives a pending task with a result. Its action
  fails in the one execution of its order: the task ends failed, with its result and its
  error both set.
\<close>
theorem task_fields_counterexample:
  "task_status (theTask (world0 staleOrder) 0 0) = Pending \<and>
   task_status (theTask (snd (executeOrder ''a1'' 0 (world0 staleOrder))) 0 0) = Failed \<and>
   result (theTask (snd (executeOrder ''a1'' 0 (world0 staleOrder))) 0 0) = Some ''old'' \<and>
   error (theTask (snd (executeOrder ''a1'' 0 (world0 staleOrder))) 0 0) = Some ''boom'' \<and>
   \<not> consistent (theTask (snd (executeOrder ''a1'' 0 (world0 staleOrder))) 0 0)"
  by (simp add: eval_defs world_defs staleOrder_def staleSpec_def createOrder_def newTask_def
      consistent_def)

text \<open>
  Claim C8, amended by the condition that, when the call starts, the tasks of the order are
  as \<^verbatim>\<open>createOrder\<close> makes them from a name, a description and an action: pending, with
  no result, error or end time. Then in every state that a listener is shown during the
  call (the task or the order of every published payload) and in the state the call leaves
  behind, every task of the order has its start time once it is not pending, has its end
  time exactly when it is completed or failed, has a result only if it is completed and an
  error only if it is failed, and never has both. The two assignments of lines 109 and
  110, and those of lines 115 to 121, are not separated by any call or \<^verbatim>\<open>await\<close>: no
  state between them is observed.
\<close>
theorem task_fields:
  assumes "\<forall>t\<in>set (tasks (orders w r)). untouched t"
  shows "(\<forall>t\<in>set (tasks (orders (snd (executeOrder agentId r w)) r)). consistent t) \<and>
         (\<forall>e\<in>set (drop (length (published w)) (published (snd (executeOrder agentId r w)))).
            \<forall>t\<in>set (payloadTasks (snd e)). consistent t)"
  using sound_executeOrder[OF assms, of agentId] by (simp add: sound_def)

theorem task_fields_witness:
  "list_all consistent (tasks (orders (snd (executeOrder ''a1'' 0 (quietWorld threeTasks))) 0)) \<and>
   list_all (\<lambda>e. list_all consistent (payloadTasks (snd e)))
     (drop (length (published (quietWorld threeTasks)))
        (published (snd (executeOrder ''a1'' 0 (quietWorld threeTasks))))) \<and>
   length (tasks (orders (snd (executeOrder ''a1'' 0 (quietWorld threeTasks))) 0)) = 3"
proof -
  have h: "\<forall>t\<in>set (tasks (orders (quietWorld threeTasks) 0)). untouched t"
    by (simp add: world_defs untouched_def)
  have a: "agents (quietWorld threeTasks) ''a1'' = Some agentA" "agent_status agentA \<noteq> Busy"
    "(1::nat) < length (tasks (orders (quietWorld threeTasks) 0))"
    "\<forall>i<1. action (theTask (quietWorld threeTasks) 0 i) = Resolves"
    "action (theTask (quietWorld threeTasks) 0 1) = Rejects boom"
    "length (tasks (orders (quietWorld threeTasks) 0)) = 3"
    by (simp_all add: world_defs theTask_def)
  from executeOrder_quiet_fail(4)[OF a(1,2) quietWorld_quiet a(3,4,5)] a(6)
  have "length (tasks (orders (snd (executeOrder ''a1'' 0 (quietWorld threeTasks))) 0)) = 3"
    by simp
  with task_fields[OF h, of "''a1''"] show ?thesis
    by (simp add: list_all_iff)
qed

subsection \<open>C9: statistics\<close>

text \<open>
  Against claim C9: (1) the same order is run twice by one agent; the first run succeeds,
  and in the second a listener of \<open>orderCompleted\<close> throws. One execution was
  successful and one failed, and the statistics count no completed order and two failed
  ones: both entries of the history are the one order object, which the second run has
  marked failed. (2) An agent runs an order with success; then a second agent runs the
  same order object and a listener of \<open>orderCompleted\<close> throws. The history of the
  first agent was produced by one successful execution, and its statistics count no
  completed order and one failed.
\<close>
theorem statistics_counterexample:
  "fst (runCalls [(''a1'', 0), (''a1'', 0)] (on ''orderCompleted'' picky (world0 oneTask))) =
     [Return (), Throw (Callback (ErrorObject ''listener failed''))] \<and>
   fst (getStats ''a1''
      (snd (runCalls [(''a1'', 0), (''a1'', 0)] (on ''orderCompleted'' picky (world0 oneTask))))) =
     Return \<lparr>totalOrders = 2, completedOrders = 0, failedOrders = 2, totalTasks = 2\<rparr> \<and>
   fst (runCalls [(''a1'', 0), (''a2'', 0)] (on ''orderCompleted'' grudge (twoAgents oneTask))) =
     [Return (), Throw (Callback (ErrorObject ''listener failed''))] \<and>
   fst (getStats ''a1''
      (snd (runCalls [(''a1'', 0), (''a2'', 0)] (on ''orderCompleted'' grudge (twoAgents oneTask))))) =
     Return \<lparr>totalOrders = 1, completedOrders = 0, failedOrders = 1, totalTasks = 1\<rparr>"
  by (simp add: eval_defs world_defs picky_def grudge_def twoAgents_def agentB_def getStats_def)

text \<open>
  Claim C9, amended by three conditions: the orders that the agent runs are distinct
  objects, no other call of \<^verbatim>\<open>executeOrder\<close> is given one of them, and no listener of
  \<open>orderStarted\<close> throws. The calls \<open>calls\<close> of \<^verbatim>\<open>executeOrder\<close>, by this agent
  and by any others, are run one after the other from a state in which the agent is not
  busy and has an empty history; \<open>M\<close> of the agent's calls return and \<open>F\<close> throw. Then \<^verbatim>\<open>getStats\<close> returns \<open>M + F\<close> orders,
  \<open>M\<close> completed, \<open>F\<close> failed, and as the number of tasks the sum of the numbers of
  tasks of the agent's orders. For an unknown identifier it throws the not-found error,
  and in every case it leaves the state as it was.
\<close>
theorem statistics:
  assumes "agents w agentId = Some a" and "orderHistory a = []" and "agent_status a \<noteq> Busy"
    and "quietOn {''orderStarted''} w"
    and "distinct (ordersOf agentId calls)"
    and "\<forall>c\<in>set calls. fst c \<noteq> agentId \<longrightarrow> snd c \<notin> set (ordersOf agentId calls)"
    and "M = length (filter (\<lambda>c. c = Return ()) (resultsOf agentId calls (fst (runCalls calls w))))"
    and "F = length (filter (\<lambda>c. c \<noteq> Return ()) (resultsOf agentId calls (fst (runCalls calls w))))"
  shows "M + F = length (ordersOf agentId calls) \<and>
         getStats agentId (snd (runCalls calls w)) =
           (Return \<lparr>totalOrders = M + F, completedOrders = M, failedOrders = F,
              totalTasks = sum_list (map (\<lambda>r. length (tasks (orders (snd (runCalls calls w)) r)))
                 (ordersOf agentId calls))\<rparr>,
            snd (runCalls calls w)) \<and>
         (agents w' other = None \<longrightarrow> getStats other w' = (Throw (AgentNotFound other), w')) \<and>
         snd (getStats other w') = w'"
proof -
  let ?rs = "ordersOf agentId calls"
  let ?cs = "resultsOf agentId calls (fst (runCalls calls w))"
  let ?w = "snd (runCalls calls w)"
  note h = runCalls_history[OF assms(1,3,4,5,6)]
  from h assms(2) obtain a' where a': "agents ?w agentId = Some a'" "orderHistory a' = ?rs" by auto
  from h have m: "map (\<lambda>r. order_status (orders ?w r)) ?rs = map verdict ?cs" by simp
  then have "length ?rs = length ?cs" by (metis length_map)
  moreover have "length (filter (\<lambda>c. c = Return ()) ?cs) + length (filter (\<lambda>c. c \<noteq> Return ()) ?cs) = length ?cs"
    by (rule sum_length_filter_compl)
  ultimately have t: "M + F = length ?rs" using assms(7,8) by simp
  from getStats_eq[OF a'(1)] a'(2) m t assms(7,8)
  have "getStats agentId ?w =
           (Return \<lparr>totalOrders = M + F, completedOrders = M, failedOrders = F,
              totalTasks = sum_list (map (\<lambda>r. length (tasks (orders ?w r))) ?rs)\<rparr>, ?w)"
    by (simp add: count_verdict)
  moreover have "agents w' other = None \<longrightarrow> getStats other w' = (Throw (AgentNotFound other), w')"
    by (simp add: getStats_def)
  moreover have "snd (getStats other w') = w'"
    by (simp add: getStats_def split: option.splits)
  ultimately show ?thesis using t by simp
qed

theorem statistics_witness:
  "fst (runCalls statsCalls statsWorld) =
     [Return (), Return (), Throw (TaskFailed ''t1'' ''boom''), Return ()] \<and>
   getStats ''a1'' (snd (runCalls statsCalls statsWorld)) =
     (Return \<lparr>totalOrders = 3, completedOrders = 2, failedOrders = 1, totalTasks = 4\<rparr>,
      snd (runCalls statsCalls statsWorld)) \<and>
   getStats ''zz'' statsWorld = (Throw (AgentNotFound ''zz''), statsWorld)"
proof -
  have h: "agents statsWorld ''a1'' = Some agentA" "orderHistory agentA = []"
    "agent_status agentA \<noteq> Busy" "agents statsWorld ''zz'' = None"
    by (simp_all add: statsWorld_def twoAgents_def world_defs)
  have o: "ordersOf ''a1'' statsCalls = [0, 1, 2]"
    by (simp add: ordersOf_def statsCalls_def)
  then have d: "distinct (ordersOf ''a1'' statsCalls)"
    and x: "\<forall>c\<in>set statsCalls. fst c \<noteq> ''a1'' \<longrightarrow> snd c \<notin> set (ordersOf ''a1'' statsCalls)"
    by (simp_all add: statsCalls_def)
  have q: "quietOn {''orderStarted''} statsWorld"
    by (simp add: quietOn_def listenersOf_def statsWorld_def twoAgents_def world0_def)
  have cs: "fst (runCalls statsCalls statsWorld) =
     [Return (), Return (), Throw (TaskFailed ''t1'' ''boom''), Return ()]"
    by (simp add: eval_defs world_defs statsWorld_def statsCalls_def twoAgents_def agentB_def)
  then have rs: "resultsOf ''a1'' statsCalls (fst (runCalls statsCalls statsWorld)) =
     [Return (), Throw (TaskFailed ''t1'' ''boom''), Return ()]"
    by (simp add: resultsOf_def statsCalls_def)
  then have mf: "2 = length (filter (\<lambda>c. c = Return ())
        (resultsOf ''a1'' statsCalls (fst (runCalls statsCalls statsWorld))))"
    "1 = length (filter (\<lambda>c. c \<noteq> Return ())
        (resultsOf ''a1'' statsCalls (fst (runCalls statsCalls statsWorld))))"
    by simp_all
  from runCalls_history[OF h(1,3) q d x]
  have "length (tasks (orders (snd (runCalls statsCalls statsWorld)) r)) =
      length (tasks (orders statsWorld r))" for r
    by simp
  then have len: "(\<Sum>r\<leftarrow>[0, 1, 2]. length (tasks (orders (snd (runCalls statsCalls statsWorld)) r))) = 4"
    by (simp add: statsWorld_def world_defs)
  from statistics[OF h(1,2,3) q d x mf, of statsWorld "''zz''"] h(4) cs o len show ?thesis
    by simp
qed

subsection \<open>C10: leaving the error status\<close>

text \<open>
  Against claim C10: the agent is left in error by an order whose task fails; the next
  order's only task succeeds, and a listener of \<open>orderCompleted\<close> throws: the agent is
  in error again, not idle.
\<close>
theorem recovery_counterexample:
  "map_option agent_status (agents (snd (executeOrder ''a1'' 0 twoOrders)) ''a1'') = Some AgentError \<and>
   action (theTask (snd (executeOrder ''a1'' 0 twoOrders)) 1 0) = Resolves \<and>
   length (tasks (orders (snd (executeOrder ''a1'' 0 twoOrders)) 1)) = 1 \<and>
   map_option agent_status
     (agents (snd (executeOrder ''a1'' 1 (snd (executeOrder ''a1'' 0 twoOrders)))) ''a1'')
     = Some AgentError"
  by (simp add: eval_defs world_defs twoOrders_def)

text \<open>
  Claim C10, amended in its second part by the condition that no listener of
  \<open>orderStarted\<close>, \<open>taskStarted\<close>, \<open>taskCompleted\<close> or \<open>orderCompleted\<close>
  throws. An agent in error is accepted: the call throws neither of the two precondition
  errors and publishes \<open>orderStarted\<close>. If moreover the actions of the order all succeed
  and these listeners do not throw, the call returns and the agent is idle.
\<close>
theorem recovery:
  assumes "agents w agentId = Some a" and "agent_status a = AgentError"
  shows "(\<forall>n. fst (executeOrder agentId r w) \<noteq> Throw (AgentBusy n)) \<and>
         (\<forall>n. fst (executeOrder agentId r w) \<noteq> Throw (AgentNotFound n)) \<and>
         prefix (published w @ [(''orderStarted'', startPayload a r w)])
           (published (snd (executeOrder agentId r w))) \<and>
         (quietOn {''orderStarted'', ''taskStarted'', ''taskCompleted'', ''orderCompleted''} w \<and>
          (\<forall>t\<in>set (tasks (orders w r)). action t = Resolves) \<longrightarrow>
            fst (executeOrder agentId r w) = Return () \<and>
            agents (snd (executeOrder agentId r w)) agentId =
              Some (a\<lparr>orderHistory := orderHistory a @ [r], currentOrder := None,
                      agent_status := Idle\<rparr>))"
proof -
  from assms(2) have nb: "agent_status a \<noteq> Busy" by simp
  from executeOrder_accepted[OF assms(1) nb, of r]
  have "(\<forall>n. fst (executeOrder agentId r w) \<noteq> Throw (AgentBusy n)) \<and>
         (\<forall>n. fst (executeOrder agentId r w) \<noteq> Throw (AgentNotFound n)) \<and>
         prefix (published w @ [(''orderStarted'', startPayload a r w)])
           (published (snd (executeOrder agentId r w)))"
    by auto
  moreover have "fst (executeOrder agentId r w) = Return () \<and>
            agents (snd (executeOrder agentId r w)) agentId =
              Some (a\<lparr>orderHistory := orderHistory a @ [r], currentOrder := None,
                      agent_status := Idle\<rparr>)"
    if "quietOn {''orderStarted'', ''taskStarted'', ''taskCompleted'', ''orderCompleted''} w"
      and "\<forall>t\<in>set (tasks (orders w r)). action t = Resolves"
    using executeOrder_quiet_success(1,2)[OF assms(1) nb that] by simp
  ultimately show ?thesis by blast
qed

theorem recovery_witness:
  "fst (executeOrder ''a1'' 0 erredWorld) = Return () \<and>
   agents (snd (executeOrder ''a1'' 0 erredWorld)) ''a1'' =
     Some (erredAgent\<lparr>orderHistory := [7, 0], currentOrder := None, agent_status := Idle\<rparr>) \<and>
   prefix [(''orderStarted'', startPayload erredAgent 0 erredWorld)]
     (published (snd (executeOrder ''a1'' 0 erredWorld)))"
proof -
  have h: "agents erredWorld ''a1'' = Some erredAgent" "agent_status erredAgent = AgentError"
    "\<forall>t\<in>set (tasks (orders erredWorld 0)). action t = Resolves"
    "orderHistory erredAgent = [7]" "published erredWorld = []"
    by (simp_all add: world_defs erredWorld_def erredAgent_def)
  have q: "quietOn evs erredWorld" for evs
    using quietWorld_quiet[of evs twoTasks]
    by (simp add: quietOn_def listenersOf_def erredWorld_def)
  from recovery[OF h(1,2), of 0] q h(3,4,5) show ?thesis by simp
qed

end
